theory Spec2Isabelle
  imports Main "HOL-Library.Char_ord" "HOL-Library.List_Lexorder"
begin

section \<open>The client datastore of psiphon (dataStore.go)\<close>

text \<open>
  A shallow embedding of the singleton bolt datastore: the buckets, the ranked server
  entry vector, the server affinity filter, the split tunnel cache and the persistent
  stat queue.  A byte slice is a \<open>string\<close>; a slice that may be nil is a
  \<open>string option\<close>.  Go's \<open>int\<close> is \<open>int\<close>: no value here comes near
  the 64-bit range.  \<open>common.ContextError\<close> wraps an error with its call site and is
  the identity in the model.

  The bolt library is outside the sources; of it the model keeps what the datastore code
  relies on: \<open>Get\<close> returns nil for a missing key, \<open>Put\<close> and \<open>Delete\<close> may
  return an error, \<open>Update\<close> commits or rolls back as a whole, a cursor walks a bucket
  in key order.  \<open>json.Marshal\<close> cannot fail on the values written here (decoded
  JSON fields and string slices), so its error branches are left out, as is a failure of
  the commit itself.  Notices carry the text of the message, without the formatted error.
\<close>

subsection \<open>Constants\<close>

definition serverEntriesBucket :: string where
  "serverEntriesBucket = ''serverEntries''"

definition rankedServerEntriesBucket :: string where
  "rankedServerEntriesBucket = ''rankedServerEntries''"

definition rankedServerEntriesKey :: string where
  "rankedServerEntriesKey = ''rankedServerEntries''"

definition splitTunnelRouteETagsBucket :: string where
  "splitTunnelRouteETagsBucket = ''splitTunnelRouteETags''"

definition splitTunnelRouteDataBucket :: string where
  "splitTunnelRouteDataBucket = ''splitTunnelRouteData''"

definition keyValueBucket :: string where
  "keyValueBucket = ''keyValues''"

definition remoteServerListStatsBucket :: string where
  "remoteServerListStatsBucket = ''remoteServerListStats''"

definition rankedServerEntryCount :: nat where
  "rankedServerEntryCount = 100"

definition DATA_STORE_LAST_SERVER_ENTRY_FILTER_KEY :: string where
  "DATA_STORE_LAST_SERVER_ENTRY_FILTER_KEY = ''lastServerEntryFilter''"

definition PERSISTENT_STAT_TYPE_REMOTE_SERVER_LIST :: string where
  "PERSISTENT_STAT_TYPE_REMOTE_SERVER_LIST = remoteServerListStatsBucket"

definition persistentStatStateUnreported :: string where
  "persistentStatStateUnreported = ''0''"

definition persistentStatStateReporting :: string where
  "persistentStatStateReporting = ''1''"

definition persistentStatTypes :: "string list" where
  "persistentStatTypes = [PERSISTENT_STAT_TYPE_REMOTE_SERVER_LIST]"

subsection \<open>Data\<close>

text \<open>
  The package \<open>protocol\<close> is not part of the sources at hand.  Of the fields of a
  server entry the datastore reads the IP address (\<open>GetIPAddress\<close>, the bucket key)
  and the configuration version (\<open>GetConfigurationVersion\<close>), and it stores their
  JSON encoding; later it decodes the stored bytes into a \<open>*protocol.ServerEntry\<close> and
  reads that struct's \<open>ConfigurationVersion\<close>.  \<open>ServerEntryFields\<close> holds what
  those calls yield: \<open>DecodedVersion\<close> is the outcome of \<open>json.Unmarshal\<close> on the
  marshalled fields, \<open>None\<close> when it returns an error (a version that is no integer
  or does not fit a Go \<open>int\<close>, a field of the wrong type), else the version of the
  decoded struct.  Versions are only compared, so the width of Go's \<open>int\<close> plays no
  role and they are \<open>int\<close>.  The validator \<open>protocol.ValidateServerEntryFields\<close>
  is a parameter of the operations that call it.
\<close>

record ServerEntryFields =
  IpAddress :: string
  ConfigurationVersion :: int
  Region :: string
  DecodedVersion :: "int option"

record Config =
  EgressRegion :: string
  TargetServerEntry :: string
  TunnelPoolSize :: int

text \<open>
  Stored JSON is kept in decoded form.  \<open>EntryJSON f\<close> is what \<open>json.Marshal\<close>
  writes for \<open>f\<close>; \<open>EntryNull\<close> is the stored JSON \<open>null\<close>, which
  \<open>json.Unmarshal\<close> accepts leaving the \<open>*ServerEntry\<close> nil; \<open>EntryGarbage\<close>
  stands for stored bytes that \<open>json.Unmarshal\<close> rejects.  Likewise for the ranked
  vector.
\<close>

datatype entry_data = EntryJSON ServerEntryFields | EntryNull | EntryGarbage string

datatype ranked_data = RankedJSON "string list" | RankedGarbage string

datatype notice = NoticeAlert string | NoticeInfo string

datatype error =
    DbAlreadyOpen
  | OpenDatabaseFailed
  | CreateBucketsFailed
  | DatabaseNotOpen
  | InvalidServerEntry
  | UnmarshalError
  | PutError
  | DeleteError
  | InvalidPersistentStatType
  | DecoderError
  | NilPointerPanic

text \<open>
  A bucket of byte keys and byte values in cursor order (ascending keys).  The typed
  buckets are maps; the stat buckets, whose iteration order matters, are lists.
\<close>

type_synonym bucket = "(string \<times> string) list"

record datastore =
  serverEntries :: "string \<rightharpoonup> entry_data"
  rankedServerEntries :: "string \<rightharpoonup> ranked_data"
  splitTunnelRouteETags :: "string \<rightharpoonup> string"
  splitTunnelRouteData :: "string \<rightharpoonup> string"
  keyValues :: "string \<rightharpoonup> string"
  persistentStats :: "string \<Rightarrow> bucket"

definition emptyDatastore :: datastore where
  "emptyDatastore = \<lparr> serverEntries = Map.empty, rankedServerEntries = Map.empty,
     splitTunnelRouteETags = Map.empty, splitTunnelRouteData = Map.empty,
     keyValues = Map.empty, persistentStats = (\<lambda>_. []) \<rparr>"

text \<open>
  The file \<open>psiphon.boltdb\<close> while no handle is attached: missing, rejected by
  \<open>bolt.Open\<close>, opened but failing \<open>SynchronousCheck\<close>, or a sound database.
  \<open>datastoreDB\<close> is nil exactly when the store is \<open>Closed\<close>.
\<close>

datatype file_state = NoFile | Unopenable | Inconsistent | DbFile datastore

datatype store_state = Closed file_state | Opened datastore

record world =
  store :: store_state
  notices :: "notice list"

definition datastoreDB :: "world \<Rightarrow> datastore option" where
  "datastoreDB w = (case store w of Closed _ \<Rightarrow> None | Opened d \<Rightarrow> Some d)"

text \<open>
  The storage layer's verdict on a write: \<open>flt b k\<close> holds when \<open>Put\<close> (or
  \<open>Delete\<close>) of key \<open>k\<close> in bucket \<open>b\<close> returns an error and writes nothing,
  be it for a blank or oversized key, an oversized value or a failing disk.  Every
  operation that writes takes the faults that hold while it runs.
\<close>

type_synonym faults = "string \<Rightarrow> string \<Rightarrow> bool"

definition noFaults :: faults where
  "noFaults = (\<lambda>_ _. False)"

subsection \<open>Transactions\<close>

text \<open>
  \<open>db.Update\<close> commits when the function returns nil and rolls back when it returns an
  error; notices are emitted either way.  \<open>db.View\<close> cannot write.
\<close>

definition dataStoreUpdate ::
  "(datastore \<Rightarrow> notice list \<times> (error + 'a \<times> datastore)) \<Rightarrow> world \<Rightarrow> (error + 'a) \<times> world" where
  "dataStoreUpdate fn w =
     (case store w of
        Closed _ \<Rightarrow> (Inl DatabaseNotOpen, w)
      | Opened d \<Rightarrow>
          (case fn d of
             (ns, Inl e) \<Rightarrow> (Inl e, w\<lparr>notices := notices w @ ns\<rparr>)
           | (ns, Inr (r, d')) \<Rightarrow> (Inr r, w\<lparr>store := Opened d', notices := notices w @ ns\<rparr>)))"

definition dataStoreView :: "(datastore \<Rightarrow> error + 'a) \<Rightarrow> world \<Rightarrow> error + 'a" where
  "dataStoreView fn w =
     (case store w of
        Closed _ \<Rightarrow> Inl DatabaseNotOpen
      | Opened d \<Rightarrow> fn d)"

subsection \<open>The ranked server entry vector\<close>

definition getRankedServerEntries :: "datastore \<Rightarrow> error + string list" where
  "getRankedServerEntries d =
     (case rankedServerEntries d rankedServerEntriesKey of
        None \<Rightarrow> Inr []
      | Some (RankedJSON ids) \<Rightarrow> Inr ids
      | Some (RankedGarbage _) \<Rightarrow> Inl UnmarshalError)"

definition setRankedServerEntries :: "faults \<Rightarrow> datastore \<Rightarrow> string list \<Rightarrow> error + datastore" where
  "setRankedServerEntries flt d ids =
     (if flt rankedServerEntriesBucket rankedServerEntriesKey then Inl PutError
      else Inr (d\<lparr>rankedServerEntries :=
                   (rankedServerEntries d)(rankedServerEntriesKey \<mapsto> RankedJSON ids)\<rparr>))"

text \<open>The loop that drops the first occurrence of the id and breaks.\<close>

fun removeRanked :: "string \<Rightarrow> string list \<Rightarrow> string list" where
  "removeRanked serverEntryId [] = []"
| "removeRanked serverEntryId (rankedServerEntryId # rest) =
     (if rankedServerEntryId = serverEntryId then rest
      else rankedServerEntryId # removeRanked serverEntryId rest)"

text \<open>
  \<open>copy(s[position+1:], s[position:])\<close>: the overlapping copy moves
  \<open>len(s) - position - 1\<close> elements one slot to the right; the last one is lost.
\<close>

definition copyRight :: "nat \<Rightarrow> string list \<Rightarrow> string list" where
  "copyRight position s =
     take (position + 1) s @ take (length s - (position + 1)) (drop position s)"

text \<open>
  The slice manipulation of \<open>insertRankedServerEntry\<close>.  The callers pass position 0
  and 1 only, so the position is a \<open>nat\<close>.
\<close>

definition insertRanked :: "string \<Rightarrow> nat \<Rightarrow> string list \<Rightarrow> string list" where
  "insertRanked serverEntryId position rankedServerEntries0 =
     (let r1 = removeRanked serverEntryId rankedServerEntries0;
          r2 = (if length r1 < rankedServerEntryCount then r1 @ [''''] else r1);
          p = (if position \<ge> length r2 then length r2 - 1 else position)
      in (copyRight p r2)[p := serverEntryId])"

definition insertRankedServerEntry ::
  "faults \<Rightarrow> datastore \<Rightarrow> string \<Rightarrow> nat \<Rightarrow> error + datastore" where
  "insertRankedServerEntry flt d serverEntryId position =
     (case getRankedServerEntries d of
        Inl e \<Rightarrow> Inl e
      | Inr ids \<Rightarrow> setRankedServerEntries flt d (insertRanked serverEntryId position ids))"

subsection \<open>Storing server entries\<close>

text \<open>
  The existing configuration version as the transaction of \<open>StoreServerEntry\<close> reads
  it: -1 when there is no record or it does not decode.  For a stored \<open>null\<close> the
  decoding succeeds with a nil pointer and the read of its field panics; the panic
  unwinds through \<open>Update\<close>, which rolls back, and is the error
  \<open>NilPointerPanic\<close> here.
\<close>

definition existingVersion :: "datastore \<Rightarrow> string \<Rightarrow> error + int" where
  "existingVersion d ipAddress =
     (case serverEntries d ipAddress of
        None \<Rightarrow> Inr (- 1)
      | Some (EntryGarbage _) \<Rightarrow> Inr (- 1)
      | Some EntryNull \<Rightarrow> Inl NilPointerPanic
      | Some (EntryJSON existingServerEntry) \<Rightarrow>
          (case DecodedVersion existingServerEntry of
             None \<Rightarrow> Inr (- 1)
           | Some version \<Rightarrow> Inr version))"

text \<open>The function run by the Update transaction of \<open>StoreServerEntry\<close>.\<close>

definition storeServerEntryTx ::
  "faults \<Rightarrow> ServerEntryFields \<Rightarrow> bool \<Rightarrow> datastore \<Rightarrow> notice list \<times> (error + unit \<times> datastore)" where
  "storeServerEntryTx flt serverEntryFields replaceIfExists d =
     (let ipAddress = IpAddress serverEntryFields
      in case existingVersion d ipAddress of
           Inl err \<Rightarrow> ([], Inl err)
         | Inr existingConfigurationVersion \<Rightarrow>
            (let exists = (existingConfigurationVersion > - 1);
                 newer = (exists \<and>
                          existingConfigurationVersion < ConfigurationVersion serverEntryFields);
                 update = (\<not> exists \<or> replaceIfExists \<or> newer)
             in if \<not> update then ([], Inr ((), d))
                else if flt serverEntriesBucket ipAddress then ([], Inl PutError)
                else (case insertRankedServerEntry flt
                             (d\<lparr>serverEntries :=
                                  (serverEntries d)(ipAddress \<mapsto> EntryJSON serverEntryFields)\<rparr>)
                             ipAddress 1 of
                        Inl e \<Rightarrow> ([], Inl e)
                      | Inr d' \<Rightarrow>
                          ([NoticeInfo (''updated server '' @ ipAddress)], Inr ((), d')))))"

definition errorOf :: "(error + 'a) \<times> world \<Rightarrow> error option \<times> world" where
  "errorOf r = (case r of (Inl e, w) \<Rightarrow> (Some e, w) | (Inr _, w) \<Rightarrow> (None, w))"

definition StoreServerEntry ::
  "(ServerEntryFields \<Rightarrow> bool) \<Rightarrow> faults \<Rightarrow> ServerEntryFields \<Rightarrow> bool \<Rightarrow> world
     \<Rightarrow> error option \<times> world" where
  "StoreServerEntry ValidateServerEntryFields flt serverEntryFields replaceIfExists w =
     (if \<not> ValidateServerEntryFields serverEntryFields then (Some InvalidServerEntry, w)
      else errorOf (dataStoreUpdate (storeServerEntryTx flt serverEntryFields replaceIfExists) w))"



subsection \<open>Promotion and the server entry filter\<close>

definition makeServerEntryFilterValue :: "Config \<Rightarrow> error + string" where
  "makeServerEntryFilterValue config = Inr (EgressRegion config)"

definition promoteServerEntryTx ::
  "faults \<Rightarrow> Config \<Rightarrow> string \<Rightarrow> datastore \<Rightarrow> notice list \<times> (error + unit \<times> datastore)" where
  "promoteServerEntryTx flt config ipAddress d =
     (case serverEntries d ipAddress of
        None \<Rightarrow>
          ([NoticeAlert (''PromoteServerEntry: ignoring unknown server entry: '' @ ipAddress)],
           Inr ((), d))
      | Some data \<Rightarrow>
          (case insertRankedServerEntry flt d ipAddress 0 of
             Inl err \<Rightarrow> ([], Inl err)
           | Inr d1 \<Rightarrow>
               (case makeServerEntryFilterValue config of
                  Inl err \<Rightarrow> ([], Inl err)
                | Inr currentFilter \<Rightarrow>
                    (if flt keyValueBucket DATA_STORE_LAST_SERVER_ENTRY_FILTER_KEY
                     then ([], Inl PutError)
                     else ([], Inr ((), d1\<lparr>keyValues :=
                             (keyValues d1)(DATA_STORE_LAST_SERVER_ENTRY_FILTER_KEY \<mapsto> currentFilter)\<rparr>))))))"

definition PromoteServerEntry :: "faults \<Rightarrow> Config \<Rightarrow> string \<Rightarrow> world \<Rightarrow> error option \<times> world" where
  "PromoteServerEntry flt config ipAddress w =
     errorOf (dataStoreUpdate (promoteServerEntryTx flt config ipAddress) w)"

text \<open>\<open>bytes.Compare\<close>: lexicographic, and a nil argument is equivalent to an empty slice.\<close>

definition bytesOf :: "string option \<Rightarrow> string" where
  "bytesOf a = (case a of None \<Rightarrow> [] | Some s \<Rightarrow> s)"

definition bytesCompare :: "string option \<Rightarrow> string option \<Rightarrow> int" where
  "bytesCompare a b =
     (if bytesOf a < bytesOf b then - 1 else if bytesOf a = bytesOf b then 0 else 1)"

definition hasServerEntryFilterChanged :: "Config \<Rightarrow> world \<Rightarrow> error + bool" where
  "hasServerEntryFilterChanged config w =
     (case makeServerEntryFilterValue config of
        Inl err \<Rightarrow> Inl err
      | Inr currentFilter \<Rightarrow>
          dataStoreView
            (\<lambda>d. let previousFilter = keyValues d DATA_STORE_LAST_SERVER_ENTRY_FILTER_KEY
                 in Inr (bytesCompare previousFilter (Some currentFilter) \<noteq> 0)) w)"

subsection \<open>Split tunnel routes\<close>

definition setSplitTunnelRoutesTx ::
  "faults \<Rightarrow> string \<Rightarrow> string \<Rightarrow> string \<Rightarrow> datastore \<Rightarrow> notice list \<times> (error + unit \<times> datastore)" where
  "setSplitTunnelRoutesTx flt region etag data d =
     (let (err1, d1) =
            (if flt splitTunnelRouteETagsBucket region then (Some PutError, d)
             else (None, d\<lparr>splitTunnelRouteETags := (splitTunnelRouteETags d)(region \<mapsto> etag)\<rparr>));
          (err2, d2) =
            (if flt splitTunnelRouteDataBucket region then (Some PutError, d1)
             else (None, d1\<lparr>splitTunnelRouteData := (splitTunnelRouteData d1)(region \<mapsto> data)\<rparr>))
      in (case err2 of Some err \<Rightarrow> ([], Inl err) | None \<Rightarrow> ([], Inr ((), d2))))"

definition SetSplitTunnelRoutes ::
  "faults \<Rightarrow> string \<Rightarrow> string \<Rightarrow> string \<Rightarrow> world \<Rightarrow> error option \<times> world" where
  "SetSplitTunnelRoutes flt region etag data w =
     errorOf (dataStoreUpdate (setSplitTunnelRoutesTx flt region etag data) w)"

definition GetSplitTunnelRoutesETag :: "string \<Rightarrow> world \<Rightarrow> error + string" where
  "GetSplitTunnelRoutesETag region w =
     dataStoreView (\<lambda>d. Inr (bytesOf (splitTunnelRouteETags d region))) w"

definition GetSplitTunnelRoutesData :: "string \<Rightarrow> world \<Rightarrow> error + string option" where
  "GetSplitTunnelRoutesData region w =
     dataStoreView (\<lambda>d. Inr (splitTunnelRouteData d region)) w"

subsection \<open>The persistent stat queue\<close>

text \<open>
  \<open>bucket.Put\<close> on a stat bucket: the value of an existing key is overwritten, a new
  key takes its place in key order.  \<open>bucket.Delete\<close> of a missing key does nothing.
\<close>

fun bucketPut :: "string \<Rightarrow> string \<Rightarrow> bucket \<Rightarrow> bucket" where
  "bucketPut key val [] = [(key, val)]"
| "bucketPut key val ((k, v) # rest) =
     (if key = k then (key, val) # rest
      else if key < k then (key, val) # (k, v) # rest
      else (k, v) # bucketPut key val rest)"

fun bucketDelete :: "string \<Rightarrow> bucket \<Rightarrow> bucket" where
  "bucketDelete key [] = []"
| "bucketDelete key ((k, v) # rest) =
     (if key = k then rest else (k, v) # bucketDelete key rest)"

text \<open>The loops \<open>for _, key := range keys { bucket.Put(key, val) }\<close> and its Delete twin.\<close>

fun putKeys :: "faults \<Rightarrow> string \<Rightarrow> string \<Rightarrow> string list \<Rightarrow> bucket \<Rightarrow> error + bucket" where
  "putKeys flt statType val [] b = Inr b"
| "putKeys flt statType val (key # keys) b =
     (if flt statType key then Inl PutError
      else putKeys flt statType val keys (bucketPut key val b))"

fun deleteKeys :: "faults \<Rightarrow> string \<Rightarrow> string list \<Rightarrow> bucket \<Rightarrow> error + bucket" where
  "deleteKeys flt statType [] b = Inr b"
| "deleteKeys flt statType (key # keys) b =
     (if flt statType key then Inl DeleteError
      else deleteKeys flt statType keys (bucketDelete key b))"

definition setStatBucket :: "datastore \<Rightarrow> string \<Rightarrow> bucket \<Rightarrow> datastore" where
  "setStatBucket d statType b = d\<lparr>persistentStats := (persistentStats d)(statType := b)\<rparr>"

definition StorePersistentStat :: "faults \<Rightarrow> string \<Rightarrow> string \<Rightarrow> world \<Rightarrow> error option \<times> world" where
  "StorePersistentStat flt statType stat w =
     (if statType \<notin> set persistentStatTypes then (Some InvalidPersistentStatType, w)
      else errorOf (dataStoreUpdate
             (\<lambda>d. case putKeys flt statType persistentStatStateUnreported [stat]
                          (persistentStats d statType) of
                     Inl err \<Rightarrow> ([], Inl err)
                   | Inr b \<Rightarrow> ([], Inr ((), setStatBucket d statType b))) w))"

text \<open>The cursor loop of \<open>CountUnreportedPersistentStats\<close>, with its break.\<close>

fun countCursor :: "bucket \<Rightarrow> int \<Rightarrow> int" where
  "countCursor [] unreported = unreported"
| "countCursor ((key, val) # rest) unreported =
     (if val = persistentStatStateUnreported then unreported + 1
      else countCursor rest unreported)"

fun countStatTypes :: "string list \<Rightarrow> datastore \<Rightarrow> int \<Rightarrow> int" where
  "countStatTypes [] d unreported = unreported"
| "countStatTypes (statType # rest) d unreported =
     countStatTypes rest d (countCursor (persistentStats d statType) unreported)"

definition CountUnreportedPersistentStats :: "world \<Rightarrow> int \<times> world" where
  "CountUnreportedPersistentStats w =
     (case dataStoreView (\<lambda>d. Inr (countStatTypes persistentStatTypes d 0)) w of
        Inl err \<Rightarrow> (0, w\<lparr>notices := notices w @ [NoticeAlert ''CountUnreportedPersistentStats failed'']\<rparr>)
      | Inr unreported \<Rightarrow> (unreported, w))"

text \<open>
  The map \<open>stats\<close> from stat type to the keys taken out; a missing entry reads as nil.
  \<open>jsonValid key\<close> stands for the test \<open>json.Unmarshal(key, &jsonData) == nil\<close>.
\<close>

type_synonym stats = "string \<rightharpoonup> string list"

definition statsOf :: "stats \<Rightarrow> string \<Rightarrow> string list" where
  "statsOf st statType = (case st statType of None \<Rightarrow> [] | Some keys \<Rightarrow> keys)"

fun takeOutCursor ::
  "(string \<Rightarrow> bool) \<Rightarrow> int \<Rightarrow> string \<Rightarrow> bucket \<Rightarrow> int \<times> stats \<times> notice list
     \<Rightarrow> int \<times> stats \<times> notice list" where
  "takeOutCursor jsonValid maxCount statType [] acc = acc"
| "takeOutCursor jsonValid maxCount statType ((key, val) # rest) (count, st, ns) =
     (if count \<ge> maxCount then (count, st, ns)
      else if \<not> jsonValid key then
        takeOutCursor jsonValid maxCount statType rest
          (count, st, ns @ [NoticeAlert (''Invalid key in TakeOutUnreportedPersistentStats: '' @ key)])
      else if val = persistentStatStateUnreported then
        takeOutCursor jsonValid maxCount statType rest
          (count + 1, st(statType \<mapsto> statsOf st statType @ [key]), ns)
      else takeOutCursor jsonValid maxCount statType rest (count, st, ns))"

fun takeOutStatTypes ::
  "(string \<Rightarrow> bool) \<Rightarrow> faults \<Rightarrow> int \<Rightarrow> string list \<Rightarrow> datastore \<Rightarrow> int \<times> stats \<times> notice list
     \<Rightarrow> notice list \<times> (error + stats \<times> datastore)" where
  "takeOutStatTypes jsonValid flt maxCount [] d (count, st, ns) = (ns, Inr (st, d))"
| "takeOutStatTypes jsonValid flt maxCount (statType # rest) d acc =
     (case takeOutCursor jsonValid maxCount statType (persistentStats d statType) acc of
        (count, st, ns) \<Rightarrow>
          (case putKeys flt statType persistentStatStateReporting (statsOf st statType)
                  (persistentStats d statType) of
             Inl err \<Rightarrow> (ns, Inl err)
           | Inr b \<Rightarrow>
               takeOutStatTypes jsonValid flt maxCount rest (setStatBucket d statType b)
                 (count, st, ns)))"

definition TakeOutUnreportedPersistentStats ::
  "(string \<Rightarrow> bool) \<Rightarrow> faults \<Rightarrow> int \<Rightarrow> world \<Rightarrow> (error + stats) \<times> world" where
  "TakeOutUnreportedPersistentStats jsonValid flt maxCount w =
     dataStoreUpdate
       (\<lambda>d. takeOutStatTypes jsonValid flt maxCount persistentStatTypes d (0, Map.empty, [])) w"

fun putBackStatTypes :: "faults \<Rightarrow> stats \<Rightarrow> string list \<Rightarrow> datastore \<Rightarrow> error + datastore" where
  "putBackStatTypes flt st [] d = Inr d"
| "putBackStatTypes flt st (statType # rest) d =
     (case putKeys flt statType persistentStatStateUnreported (statsOf st statType)
             (persistentStats d statType) of
        Inl err \<Rightarrow> Inl err
      | Inr b \<Rightarrow> putBackStatTypes flt st rest (setStatBucket d statType b))"

definition txOf :: "error + datastore \<Rightarrow> notice list \<times> (error + unit \<times> datastore)" where
  "txOf r = (case r of Inl err \<Rightarrow> ([], Inl err) | Inr d \<Rightarrow> ([], Inr ((), d)))"

definition PutBackUnreportedPersistentStats :: "faults \<Rightarrow> stats \<Rightarrow> world \<Rightarrow> error option \<times> world" where
  "PutBackUnreportedPersistentStats flt st w =
     errorOf (dataStoreUpdate (\<lambda>d. txOf (putBackStatTypes flt st persistentStatTypes d)) w)"

fun clearStatTypes :: "faults \<Rightarrow> stats \<Rightarrow> string list \<Rightarrow> datastore \<Rightarrow> error + datastore" where
  "clearStatTypes flt st [] d = Inr d"
| "clearStatTypes flt st (statType # rest) d =
     (case deleteKeys flt statType (statsOf st statType) (persistentStats d statType) of
        Inl err \<Rightarrow> Inl err
      | Inr b \<Rightarrow> clearStatTypes flt st rest (setStatBucket d statType b))"

definition ClearReportedPersistentStats :: "faults \<Rightarrow> stats \<Rightarrow> world \<Rightarrow> error option \<times> world" where
  "ClearReportedPersistentStats flt st w =
     errorOf (dataStoreUpdate (\<lambda>d. txOf (clearStatTypes flt st persistentStatTypes d)) w)"

fun resetStatTypes :: "faults \<Rightarrow> string list \<Rightarrow> datastore \<Rightarrow> error + datastore" where
  "resetStatTypes flt [] d = Inr d"
| "resetStatTypes flt (statType # rest) d =
     (let resetKeys = map fst (persistentStats d statType)
      in case putKeys flt statType persistentStatStateUnreported resetKeys
                (persistentStats d statType) of
           Inl err \<Rightarrow> Inl err
         | Inr b \<Rightarrow> resetStatTypes flt rest (setStatBucket d statType b))"

definition resetAllPersistentStatsToUnreported :: "faults \<Rightarrow> world \<Rightarrow> error option \<times> world" where
  "resetAllPersistentStatsToUnreported flt w =
     errorOf (dataStoreUpdate (\<lambda>d. txOf (resetStatTypes flt persistentStatTypes d)) w)"

subsection \<open>Opening and closing\<close>

text \<open>
  What the environment decides while the store is opened: whether \<open>bolt.Open\<close> of attempt
  \<open>retry\<close> fails on its own (the file lock timing out, say), whether the bucket
  creation fails, whether deleting the obsolete bucket fails.
\<close>

record open_io =
  boltOpenFails :: "nat \<Rightarrow> bool"
  createBucketsFails :: bool
  deleteBucketFails :: bool

text \<open>
  The retry loop, \<open>attempts\<close> iterations from \<open>retry\<close> on.  A failed attempt removes
  the file; \<open>bolt.Open\<close> of a missing file creates an empty database.
\<close>

fun openAttempts ::
  "(nat \<Rightarrow> bool) \<Rightarrow> nat \<Rightarrow> nat \<Rightarrow> file_state \<Rightarrow> notice list
     \<Rightarrow> notice list \<times> file_state \<times> datastore option" where
  "openAttempts openFails 0 retry file ns = (ns, file, None)"
| "openAttempts openFails (Suc attempts) retry file ns =
     (let ns1 = (if retry > 0 then ns @ [NoticeAlert ''OpenDataStore retry''] else ns)
      in if openFails retry then
           openAttempts openFails attempts (retry + 1) NoFile (ns1 @ [NoticeAlert ''bolt.Open error''])
         else (case file of
                 Unopenable \<Rightarrow>
                   openAttempts openFails attempts (retry + 1) NoFile
                     (ns1 @ [NoticeAlert ''bolt.Open error''])
               | Inconsistent \<Rightarrow>
                   openAttempts openFails attempts (retry + 1) NoFile
                     (ns1 @ [NoticeAlert ''bolt.SynchronousCheck error''])
               | DbFile d \<Rightarrow> (ns1, DbFile d, Some d)
               | NoFile \<Rightarrow> (ns1, DbFile emptyDatastore, Some emptyDatastore)))"

definition OpenDataStore :: "open_io \<Rightarrow> faults \<Rightarrow> world \<Rightarrow> error option \<times> world" where
  "OpenDataStore io flt w =
     (case store w of
        Opened _ \<Rightarrow> (Some DbAlreadyOpen, w)
      | Closed file \<Rightarrow>
          (case openAttempts (boltOpenFails io) 3 0 file [] of
             (ns, file', None) \<Rightarrow>
               (Some OpenDatabaseFailed, w\<lparr>store := Closed file', notices := notices w @ ns\<rparr>)
           | (ns, file', Some newDB) \<Rightarrow>
               (if createBucketsFails io then
                  (Some CreateBucketsFailed, w\<lparr>store := Closed file', notices := notices w @ ns\<rparr>)
                else
                  (let ns2 = (if deleteBucketFails io
                              then ns @ [NoticeAlert ''DeleteBucket tunnelStats error'']
                              else ns);
                       w1 = w\<lparr>store := Opened newDB, notices := notices w @ ns2\<rparr>;
                       (_, w2) = resetAllPersistentStatsToUnreported flt w1
                   in (None, w2)))))"

definition CloseDataStore :: "bool \<Rightarrow> world \<Rightarrow> world" where
  "CloseDataStore closeFails w =
     (case store w of
        Closed _ \<Rightarrow> w
      | Opened d \<Rightarrow>
          w\<lparr>store := Closed (DbFile d),
            notices := (if closeFails then notices w @ [NoticeAlert ''failed to close database'']
                        else notices w)\<rparr>)"

text \<open>
  The process dies without \<open>CloseDataStore\<close>: the handle is gone, what was committed is
  in the file.
\<close>

definition crash :: "world \<Rightarrow> world" where
  "crash w = (case store w of Closed _ \<Rightarrow> w | Opened d \<Rightarrow> w\<lparr>store := Closed (DbFile d)\<rparr>)"

subsection \<open>Operation sequences\<close>

text \<open>
  The calls a client makes on an open datastore, each with the storage faults that hold
  while it runs.  Creating a server entry iterator reads through \<open>dataStoreView\<close> only
  (\<open>hasServerEntryFilterChanged\<close>, then \<open>Reset\<close>), so it leaves the world as it is.
\<close>

datatype operation =
    OpStoreServerEntry ServerEntryFields bool
  | OpPromoteServerEntry Config string
  | OpNewServerEntryIterator Config
  | OpStorePersistentStat string string
  | OpCountUnreportedPersistentStats
  | OpTakeOutUnreportedPersistentStats int
  | OpPutBackUnreportedPersistentStats stats
  | OpClearReportedPersistentStats stats

fun step ::
  "(ServerEntryFields \<Rightarrow> bool) \<Rightarrow> (string \<Rightarrow> bool) \<Rightarrow> faults \<Rightarrow> operation \<Rightarrow> world \<Rightarrow> world" where
  "step valid jsonValid flt (OpStoreServerEntry f replaceIfExists) w =
     snd (StoreServerEntry valid flt f replaceIfExists w)"
| "step valid jsonValid flt (OpPromoteServerEntry config ipAddress) w =
     snd (PromoteServerEntry flt config ipAddress w)"
| "step valid jsonValid flt (OpNewServerEntryIterator config) w = w"
| "step valid jsonValid flt (OpStorePersistentStat statType stat) w =
     snd (StorePersistentStat flt statType stat w)"
| "step valid jsonValid flt OpCountUnreportedPersistentStats w =
     snd (CountUnreportedPersistentStats w)"
| "step valid jsonValid flt (OpTakeOutUnreportedPersistentStats maxCount) w =
     snd (TakeOutUnreportedPersistentStats jsonValid flt maxCount w)"
| "step valid jsonValid flt (OpPutBackUnreportedPersistentStats st) w =
     snd (PutBackUnreportedPersistentStats flt st w)"
| "step valid jsonValid flt (OpClearReportedPersistentStats st) w =
     snd (ClearReportedPersistentStats flt st w)"

fun run ::
  "(ServerEntryFields \<Rightarrow> bool) \<Rightarrow> (string \<Rightarrow> bool) \<Rightarrow> (faults \<times> operation) list \<Rightarrow> world \<Rightarrow> world" where
  "run valid jsonValid [] w = w"
| "run valid jsonValid ((flt, op) # ops) w = run valid jsonValid ops (step valid jsonValid flt op w)"

definition freshWorld :: world where
  "freshWorld = \<lparr> store = Opened emptyDatastore, notices = [] \<rparr>"

text \<open>
  The ranked vector \<open>R\<close> of a datastore and of a world: what
  \<open>getRankedServerEntries\<close> reads (nothing when it fails or the store is closed).
\<close>

definition rankedOf :: "datastore \<Rightarrow> string list" where
  "rankedOf d = (case getRankedServerEntries d of Inl _ \<Rightarrow> [] | Inr ids \<Rightarrow> ids)"

definition rankedVector :: "world \<Rightarrow> string list" where
  "rankedVector w = (case store w of Closed _ \<Rightarrow> [] | Opened d \<Rightarrow> rankedOf d)"

subsection \<open>Scenarios\<close>

text \<open>The three relays of the import scenario: A (CA, version 1), B (US, 1), C (CA, 1).\<close>

definition relayA :: ServerEntryFields where
  "relayA = \<lparr> IpAddress = ''192.0.2.1'', ConfigurationVersion = 1, Region = ''CA'',
       DecodedVersion = Some (1) \<rparr>"

definition relayB :: ServerEntryFields where
  "relayB = \<lparr> IpAddress = ''192.0.2.2'', ConfigurationVersion = 1, Region = ''US'',
       DecodedVersion = Some (1) \<rparr>"

definition relayC :: ServerEntryFields where
  "relayC = \<lparr> IpAddress = ''192.0.2.3'', ConfigurationVersion = 1, Region = ''CA'',
       DecodedVersion = Some (1) \<rparr>"

text \<open>
  Starting from an empty datastore, \<open>StoreServerEntry\<close> of \<open>a\<close>, then \<open>b\<close>, then
  \<open>c\<close>, each with \<open>replaceIfExists = false\<close> and no storage fault.
\<close>

definition storeThree ::
  "(ServerEntryFields \<Rightarrow> bool) \<Rightarrow> ServerEntryFields \<Rightarrow> ServerEntryFields \<Rightarrow> ServerEntryFields
     \<Rightarrow> world" where
  "storeThree valid a b c =
     snd (StoreServerEntry valid noFaults c False
       (snd (StoreServerEntry valid noFaults b False
         (snd (StoreServerEntry valid noFaults a False freshWorld)))))"

text \<open>
  A stand-in for the validator in the scenarios: it accepts an entry that has an IP
  address.
\<close>

definition hasIpAddress :: "ServerEntryFields \<Rightarrow> bool" where
  "hasIpAddress f = (IpAddress f \<noteq> [])"

definition cfgCA :: Config where
  "cfgCA = \<lparr> EgressRegion = ''CA'', TargetServerEntry = [], TunnelPoolSize = 1 \<rparr>"

definition relayA2 :: ServerEntryFields where
  "relayA2 = \<lparr> IpAddress = ''192.0.2.1'', ConfigurationVersion = 2, Region = ''CA'',
       DecodedVersion = Some (2) \<rparr>"

definition entryMinus5 :: ServerEntryFields where
  "entryMinus5 = \<lparr> IpAddress = ''192.0.2.1'', ConfigurationVersion = - 5, Region = ''CA'',
       DecodedVersion = Some (- 5) \<rparr>"

definition entryMinus10 :: ServerEntryFields where
  "entryMinus10 = \<lparr> IpAddress = ''192.0.2.1'', ConfigurationVersion = - 10, Region = ''CA'',
       DecodedVersion = Some (- 10) \<rparr>"

text \<open>The datastore that holds one server entry, ranked, and the open world around a datastore.\<close>

definition dbWith :: "ServerEntryFields \<Rightarrow> datastore" where
  "dbWith f = emptyDatastore\<lparr>serverEntries := [IpAddress f \<mapsto> EntryJSON f],
                 rankedServerEntries := [rankedServerEntriesKey \<mapsto> RankedJSON [IpAddress f]]\<rparr>"

definition worldOf :: "datastore \<Rightarrow> world" where
  "worldOf d = \<lparr> store = Opened d, notices = [] \<rparr>"

text \<open>The stored server entry filter of a world, nil when unset or closed.\<close>

definition lastServerEntryFilter :: "world \<Rightarrow> string option" where
  "lastServerEntryFilter w =
     (case store w of
        Closed _ \<Rightarrow> None
      | Opened d \<Rightarrow> keyValues d DATA_STORE_LAST_SERVER_ENTRY_FILTER_KEY)"

subsection \<open>The write condition of StoreServerEntry\<close>

text \<open>
  The configuration version of the existing record when it decodes, and the condition
  under which the record is written: first in the words "no decodable existing record is
  present, or replaceIfExists, or the existing version is strictly less", then as the
  code tests it, with the existing records of negative version counted as absent.
\<close>

definition decodedExisting :: "datastore \<Rightarrow> string \<Rightarrow> int option" where
  "decodedExisting d ipAddress =
     (case serverEntries d ipAddress of
        Some (EntryJSON e) \<Rightarrow> DecodedVersion e
      | _ \<Rightarrow> None)"

definition writeConditionAsClaimed :: "datastore \<Rightarrow> ServerEntryFields \<Rightarrow> bool \<Rightarrow> bool" where
  "writeConditionAsClaimed d f replaceIfExists =
     (case decodedExisting d (IpAddress f) of
        None \<Rightarrow> True
      | Some version \<Rightarrow> replaceIfExists \<or> version < ConfigurationVersion f)"

definition writeCondition :: "datastore \<Rightarrow> ServerEntryFields \<Rightarrow> bool \<Rightarrow> bool" where
  "writeCondition d f replaceIfExists =
     (case decodedExisting d (IpAddress f) of
        None \<Rightarrow> True
      | Some version \<Rightarrow> version < 0 \<or> replaceIfExists \<or> version < ConfigurationVersion f)"

text \<open>The datastore after the record is written and its IP ranked at position 1.\<close>

definition writtenEntry :: "datastore \<Rightarrow> ServerEntryFields \<Rightarrow> datastore" where
  "writtenEntry d f =
     d\<lparr>serverEntries := (serverEntries d)(IpAddress f \<mapsto> EntryJSON f),
       rankedServerEntries := (rankedServerEntries d)(rankedServerEntriesKey \<mapsto>
          RankedJSON (insertRanked (IpAddress f) 1 (rankedOf d)))\<rparr>"

text \<open>
  The datastore after a promotion: the IP ranked at position 0 and the filter value of
  the config stored.
\<close>

definition promotedEntry :: "datastore \<Rightarrow> Config \<Rightarrow> string \<Rightarrow> datastore" where
  "promotedEntry d config ipAddress =
     d\<lparr>rankedServerEntries := (rankedServerEntries d)(rankedServerEntriesKey \<mapsto>
          RankedJSON (insertRanked ipAddress 0 (rankedOf d))),
       keyValues := (keyValues d)(DATA_STORE_LAST_SERVER_ENTRY_FILTER_KEY \<mapsto>
          EgressRegion config)\<rparr>"

subsection \<open>Faults and observations for the scenarios\<close>

text \<open>The storage fault that hits exactly the writes of key \<open>k\<close> in bucket \<open>b\<close>.\<close>

definition faultAt :: "string \<Rightarrow> string \<Rightarrow> faults" where
  "faultAt b k = (\<lambda>b' k'. b' = b \<and> k' = k)"

text \<open>Observations of the stat queue: a bucket of a world, the keys of a take-out result.\<close>

definition statBucketOf :: "world \<Rightarrow> string \<Rightarrow> bucket" where
  "statBucketOf w statType =
     (case store w of Closed _ \<Rightarrow> [] | Opened d \<Rightarrow> persistentStats d statType)"

definition statsTaken :: "(error + stats) \<Rightarrow> string \<Rightarrow> string list" where
  "statsTaken r statType = (case r of Inl _ \<Rightarrow> [] | Inr st \<Rightarrow> statsOf st statType)"

text \<open>
  The keys a take-out selects from a bucket when \<open>maxCount\<close> does not cut it short, and
  the total number of stored stat records.
\<close>

definition unreportedKeys :: "(string \<Rightarrow> bool) \<Rightarrow> bucket \<Rightarrow> string list" where
  "unreportedKeys jsonValid b =
     map fst (filter (\<lambda>(key, val). jsonValid key \<and> val = persistentStatStateUnreported) b)"

definition storedStatCount :: "world \<Rightarrow> int" where
  "storedStatCount w =
     (case store w of
        Closed _ \<Rightarrow> 0
      | Opened d \<Rightarrow> sum_list (map (\<lambda>statType. int (length (persistentStats d statType)))
                                persistentStatTypes))"

text \<open>
  A stand-in for the JSON test in the scenarios: it accepts the keys that open an array or
  an object.  Two stats, and an environment in which opening meets no failure.
\<close>

definition opensJSON :: "string \<Rightarrow> bool" where
  "opensJSON key = (case key of [] \<Rightarrow> False | c # _ \<Rightarrow> c = CHR ''['' \<or> c = CHR ''{'')"

definition stat1 :: string where
  "stat1 = ''[1]''"

definition stat2 :: string where
  "stat2 = ''[2]''"

definition quietIO :: open_io where
  "quietIO = \<lparr> boltOpenFails = (\<lambda>_. False), createBucketsFails = False,
               deleteBucketFails = False \<rparr>"

definition closedWorld :: world where
  "closedWorld = \<lparr> store = Closed NoFile, notices = [] \<rparr>"

definition emptyRegionConfig :: Config where
  "emptyRegionConfig = \<lparr> EgressRegion = [], TargetServerEntry = [], TunnelPoolSize = 1 \<rparr>"

text \<open>The datastore whose only content is the given bucket of remote server list stats.\<close>

definition statsDb :: "bucket \<Rightarrow> datastore" where
  "statsDb b = emptyDatastore\<lparr>persistentStats :=
      (\<lambda>_. [])(PERSISTENT_STAT_TYPE_REMOTE_SERVER_LIST := b)\<rparr>"

text \<open>
  The crash scenario: two stats are stored, taken out, the process dies, the datastore is
  opened again.
\<close>

definition twoStats :: world where
  "twoStats =
     snd (StorePersistentStat noFaults PERSISTENT_STAT_TYPE_REMOTE_SERVER_LIST stat2
       (snd (StorePersistentStat noFaults PERSISTENT_STAT_TYPE_REMOTE_SERVER_LIST stat1
          freshWorld)))"

definition takenOut :: world where
  "takenOut = snd (TakeOutUnreportedPersistentStats opensJSON noFaults 10 twoStats)"

definition reopened :: world where
  "reopened = snd (OpenDataStore quietIO noFaults (crash takenOut))"

definition oneTaken :: stats where
  "oneTaken = [PERSISTENT_STAT_TYPE_REMOTE_SERVER_LIST \<mapsto> [stat1]]"

definition bothTaken :: stats where
  "bothTaken = [PERSISTENT_STAT_TYPE_REMOTE_SERVER_LIST \<mapsto> [stat1, stat2]]"

text \<open>
  A file left with one stat in state Reporting, and the fault that hits the write of that
  stat's key.
\<close>

definition reportingDb :: datastore where
  "reportingDb = statsDb [(stat1, persistentStatStateReporting)]"

definition crashedFileWorld :: world where
  "crashedFileWorld = \<lparr> store = Closed (DbFile reportingDb), notices = [] \<rparr>"

definition statFault :: faults where
  "statFault = faultAt PERSISTENT_STAT_TYPE_REMOTE_SERVER_LIST stat1"

section \<open>The ranked vector\<close>

subsection \<open>The slice manipulation as list operations\<close>

lemma removeRanked_remove1: "removeRanked x xs = remove1 x xs"
  by (induction xs) auto

lemma copyRight_update:
  assumes "p < length s"
  shows "(copyRight p s)[p := x] = take p s @ [x] @ butlast (drop p s)"
proof -
  have a: "take (length s - (p + 1)) (drop p s) = butlast (drop p s)"
    by (simp add: butlast_conv_take)
  have b: "(take (p + 1) s)[p := x] = take p s @ [x]"
    using assms by (simp add: take_Suc_conv_app_nth list_update_append)
  have "(copyRight p s)[p := x] = (take (p + 1) s)[p := x] @ take (length s - (p + 1)) (drop p s)"
    unfolding copyRight_def using assms by (simp add: list_update_append)
  with a b show ?thesis by simp
qed

text \<open>Below the cap the id is inserted and nothing is lost.\<close>

lemma insertRanked_below_cap:
  assumes "length (remove1 x r) < rankedServerEntryCount"
  shows "insertRanked x p r =
           take (min p (length (remove1 x r))) (remove1 x r) @ [x] @
           drop (min p (length (remove1 x r))) (remove1 x r)"
proof -
  let ?r1 = "remove1 x r"
  let ?s = "?r1 @ ['''']"
  let ?q = "min p (length ?r1)"
  have q: "?q < length ?s" by simp
  have "insertRanked x p r = (copyRight ?q ?s)[?q := x]"
    using assms unfolding insertRanked_def Let_def removeRanked_remove1
    by (auto simp: min_def)
  also have "\<dots> = take ?q ?s @ [x] @ butlast (drop ?q ?s)"
    by (rule copyRight_update[OF q])
  also have "\<dots> = take ?q ?r1 @ [x] @ drop ?q ?r1"
    by (simp add: butlast_append)
  finally show ?thesis .
qed

text \<open>At the cap the tail entry is evicted.\<close>

lemma insertRanked_at_cap:
  assumes "\<not> length (remove1 x r) < rankedServerEntryCount"
  shows "insertRanked x p r =
           take (min p (length (remove1 x r) - 1)) (remove1 x r) @ [x] @
           butlast (drop (min p (length (remove1 x r) - 1)) (remove1 x r))"
proof -
  let ?r1 = "remove1 x r"
  let ?q = "min p (length ?r1 - 1)"
  have pos: "0 < length ?r1"
    using assms by (cases "remove1 x r") (simp_all add: rankedServerEntryCount_def)
  then have q: "?q < length ?r1" by arith
  have pq: "(if p \<ge> length ?r1 then length ?r1 - 1 else p) = ?q"
    using pos by arith
  have "insertRanked x p r = (copyRight ?q ?r1)[?q := x]"
    unfolding insertRanked_def Let_def removeRanked_remove1
    using assms pq by simp
  also have "\<dots> = take ?q ?r1 @ [x] @ butlast (drop ?q ?r1)"
    by (rule copyRight_update[OF q])
  finally show ?thesis .
qed

lemma length_insertRanked:
  assumes "length r \<le> rankedServerEntryCount"
  shows "length (insertRanked x p r) \<le> rankedServerEntryCount"
proof (cases "length (remove1 x r) < rankedServerEntryCount")
  case True
  then show ?thesis by (simp add: insertRanked_below_cap)
next
  case False
  have "length (remove1 x r) \<le> length r"
    by (simp add: length_remove1)
  with assms False have "length (remove1 x r) = rankedServerEntryCount" by simp
  then show ?thesis
    using insertRanked_at_cap[OF False, of p]
    by (simp add: rankedServerEntryCount_def)
qed

lemma distinct_insertRanked:
  assumes "distinct r"
  shows "distinct (insertRanked x p r)"
proof -
  let ?r1 = "remove1 x r"
  have d1: "distinct ?r1" using assms by simp
  have nx: "x \<notin> set ?r1" using assms by simp
  have split: "\<And>q. set (take q ?r1) \<inter> set (drop q ?r1) = {}"
    using d1 by (simp add: set_take_disj_set_drop_if_distinct)
  show ?thesis
  proof (cases "length ?r1 < rankedServerEntryCount")
    case True
    have "distinct (take (min p (length ?r1)) ?r1 @ [x] @ drop (min p (length ?r1)) ?r1)"
      using split[of "min p (length ?r1)"] nx d1
      by (auto dest: in_set_takeD in_set_dropD)
    then show ?thesis by (simp only: insertRanked_below_cap[OF True])
  next
    case False
    let ?q = "min p (length ?r1 - 1)"
    have "distinct (take ?q ?r1 @ [x] @ butlast (drop ?q ?r1))"
      using split[of ?q] nx d1
      by (auto dest: in_set_takeD in_set_dropD in_set_butlastD simp: distinct_butlast)
    then show ?thesis by (simp only: insertRanked_at_cap[OF False])
  qed
qed

lemma insertRanked_head: "insertRanked x 0 r = x # tl (insertRanked x 0 r)"
  by (cases "length (remove1 x r) < rankedServerEntryCount")
     (simp_all add: insertRanked_below_cap insertRanked_at_cap)

lemma insertRanked_1_nil: "insertRanked a (Suc 0) [] = [a]"
  by (simp add: insertRanked_def copyRight_def rankedServerEntryCount_def)

lemma insertRanked_1_one: "a \<noteq> b \<Longrightarrow> insertRanked b (Suc 0) [a] = [a, b]"
  by (simp add: insertRanked_def copyRight_def rankedServerEntryCount_def)

lemma insertRanked_1_two:
  "a \<noteq> c \<Longrightarrow> b \<noteq> c \<Longrightarrow> insertRanked c (Suc 0) [a, b] = [a, c, b]"
  by (simp add: insertRanked_def copyRight_def rankedServerEntryCount_def)

subsection \<open>What each operation does to the ranked vector\<close>

lemma rankedVector_notices [simp]: "rankedVector (w\<lparr>notices := ns\<rparr>) = rankedVector w"
  by (simp add: rankedVector_def)

lemma rankedOf_cong:
  "rankedServerEntries d' = rankedServerEntries d \<Longrightarrow> rankedOf d' = rankedOf d"
  by (simp add: rankedOf_def getRankedServerEntries_def)

lemma rankedOf_serverEntries [simp]: "rankedOf (d\<lparr>serverEntries := m\<rparr>) = rankedOf d"
  by (simp add: rankedOf_def getRankedServerEntries_def)

lemma rankedOf_keyValues [simp]: "rankedOf (d\<lparr>keyValues := m\<rparr>) = rankedOf d"
  by (simp add: rankedOf_def getRankedServerEntries_def)

lemma snd_errorOf [simp]: "snd (errorOf r) = snd r"
  by (cases r; cases "fst r") (auto simp: errorOf_def)

text \<open>
  A transaction whose function either keeps the vector or inserts into it does the same
  to the vector of the world, whether it commits, rolls back or finds the store closed.
\<close>

lemma update_ranked_cases:
  assumes "\<And>d ns r d'. fn d = (ns, Inr (r, d')) \<Longrightarrow>
             rankedOf d' = rankedOf d \<or> rankedOf d' = insertRanked x p (rankedOf d)"
  shows "rankedVector (snd (dataStoreUpdate fn w)) = rankedVector w \<or>
         rankedVector (snd (dataStoreUpdate fn w)) = insertRanked x p (rankedVector w)"
proof (cases "store w")
  case (Closed f)
  then show ?thesis by (simp add: dataStoreUpdate_def)
next
  case (Opened d)
  obtain ns res where fn: "fn d = (ns, res)" by (cases "fn d")
  show ?thesis
  proof (cases res)
    case (Inl e)
    with Opened fn show ?thesis by (simp add: dataStoreUpdate_def)
  next
    case (Inr q)
    obtain r d' where q: "q = (r, d')" by (cases q)
    from assms[of d ns r d'] fn Inr q
    have "rankedOf d' = rankedOf d \<or> rankedOf d' = insertRanked x p (rankedOf d)"
      by simp
    with Opened fn Inr q show ?thesis
      by (simp add: dataStoreUpdate_def rankedVector_def)
  qed
qed

lemma update_keeps_ranked:
  assumes "\<And>d ns r d'. fn d = (ns, Inr (r, d')) \<Longrightarrow> rankedServerEntries d' = rankedServerEntries d"
  shows "rankedVector (snd (dataStoreUpdate fn w)) = rankedVector w"
proof (cases "store w")
  case (Closed f)
  then show ?thesis by (simp add: dataStoreUpdate_def)
next
  case (Opened d)
  obtain ns res where fn: "fn d = (ns, res)" by (cases "fn d")
  show ?thesis
  proof (cases res)
    case (Inl e)
    with Opened fn show ?thesis by (simp add: dataStoreUpdate_def)
  next
    case (Inr q)
    obtain r d' where q: "q = (r, d')" by (cases q)
    from fn Inr q have "fn d = (ns, Inr (r, d'))" by simp
    then have "rankedOf d' = rankedOf d"
      by (rule rankedOf_cong[OF assms])
    with Opened fn Inr q show ?thesis
      by (simp add: dataStoreUpdate_def rankedVector_def)
  qed
qed

lemma ranked_setStatBucket [simp]:
  "rankedServerEntries (setStatBucket d t b) = rankedServerEntries d"
  by (simp add: setStatBucket_def)

lemma putBackStatTypes_ranked:
  "putBackStatTypes flt st tys d = Inr d' \<Longrightarrow> rankedServerEntries d' = rankedServerEntries d"
  by (induction tys arbitrary: d) (auto split: sum.splits)

lemma clearStatTypes_ranked:
  "clearStatTypes flt st tys d = Inr d' \<Longrightarrow> rankedServerEntries d' = rankedServerEntries d"
  by (induction tys arbitrary: d) (auto split: sum.splits)

lemma takeOutStatTypes_ranked:
  "takeOutStatTypes j flt m tys d acc = (ns, Inr (st, d')) \<Longrightarrow>
   rankedServerEntries d' = rankedServerEntries d"
proof (induction tys arbitrary: d acc)
  case Nil
  then show ?case by (cases acc) auto
next
  case (Cons t tys)
  then show ?case by (auto split: prod.splits sum.splits)
qed

lemma ranked_StorePersistentStat:
  "rankedVector (snd (StorePersistentStat flt t s w)) = rankedVector w"
  unfolding StorePersistentStat_def
  by (auto intro!: update_keeps_ranked split: sum.splits if_splits)

lemma ranked_TakeOut:
  "rankedVector (snd (TakeOutUnreportedPersistentStats j flt m w)) = rankedVector w"
  unfolding TakeOutUnreportedPersistentStats_def
  by (rule update_keeps_ranked) (rule takeOutStatTypes_ranked)

lemma ranked_PutBack:
  "rankedVector (snd (PutBackUnreportedPersistentStats flt st w)) = rankedVector w"
  unfolding PutBackUnreportedPersistentStats_def
  by (auto intro!: update_keeps_ranked simp: txOf_def split: sum.splits
           dest: putBackStatTypes_ranked)

lemma ranked_Clear:
  "rankedVector (snd (ClearReportedPersistentStats flt st w)) = rankedVector w"
  unfolding ClearReportedPersistentStats_def
  by (auto intro!: update_keeps_ranked simp: txOf_def split: sum.splits
           dest: clearStatTypes_ranked)

lemma ranked_Count:
  "rankedVector (snd (CountUnreportedPersistentStats w)) = rankedVector w"
  by (simp add: CountUnreportedPersistentStats_def split: sum.splits)

lemma insertRankedServerEntry_ranked:
  assumes "insertRankedServerEntry flt d x p = Inr d'"
  shows "rankedOf d' = insertRanked x p (rankedOf d)"
  using assms
  by (auto simp: insertRankedServerEntry_def setRankedServerEntries_def getRankedServerEntries_def
                 rankedOf_def
           split: sum.splits if_splits option.splits ranked_data.splits)

lemma storeServerEntryTx_ranked:
  assumes "storeServerEntryTx flt f rep d = (ns, Inr (r, d'))"
  shows "rankedOf d' = rankedOf d \<or> rankedOf d' = insertRanked (IpAddress f) 1 (rankedOf d)"
proof -
  let ?d1 = "d\<lparr>serverEntries := (serverEntries d)(IpAddress f \<mapsto> EntryJSON f)\<rparr>"
  from assms have "d' = d \<or> insertRankedServerEntry flt ?d1 (IpAddress f) 1 = Inr d'"
    by (auto simp: storeServerEntryTx_def Let_def split: if_splits sum.splits)
  then show ?thesis
    using insertRankedServerEntry_ranked[of flt ?d1 "IpAddress f" 1 d'] by auto
qed

lemma promoteServerEntryTx_ranked:
  assumes "promoteServerEntryTx flt c ip d = (ns, Inr (r, d'))"
  shows "rankedOf d' = rankedOf d \<or> rankedOf d' = insertRanked ip 0 (rankedOf d)"
proof -
  from assms
  have "d' = d \<or> (\<exists>d1 m. insertRankedServerEntry flt d ip 0 = Inr d1 \<and> d' = d1\<lparr>keyValues := m\<rparr>)"
    by (auto simp: promoteServerEntryTx_def makeServerEntryFilterValue_def
             split: option.splits if_splits sum.splits)
  then show ?thesis
    using insertRankedServerEntry_ranked[of flt d ip 0] by auto
qed

lemma ranked_Store:
  "rankedVector (snd (StoreServerEntry valid flt f rep w)) = rankedVector w \<or>
   rankedVector (snd (StoreServerEntry valid flt f rep w)) =
     insertRanked (IpAddress f) 1 (rankedVector w)"
proof (cases "valid f")
  case False
  then show ?thesis by (simp add: StoreServerEntry_def)
next
  case True
  then show ?thesis
    using update_ranked_cases[of "storeServerEntryTx flt f rep" "IpAddress f" 1 w,
                              OF storeServerEntryTx_ranked]
    by (simp add: StoreServerEntry_def)
qed

lemma ranked_Promote:
  "rankedVector (snd (PromoteServerEntry flt c ip w)) = rankedVector w \<or>
   rankedVector (snd (PromoteServerEntry flt c ip w)) = insertRanked ip 0 (rankedVector w)"
  using update_ranked_cases[of "promoteServerEntryTx flt c ip" ip 0 w,
                            OF promoteServerEntryTx_ranked]
  by (simp add: PromoteServerEntry_def)

lemma step_ranked:
  "rankedVector (step valid j flt op w) = rankedVector w \<or>
   (\<exists>x p. rankedVector (step valid j flt op w) = insertRanked x p (rankedVector w))"
proof (cases op)
  case (OpStoreServerEntry f rep)
  then show ?thesis using ranked_Store[of valid flt f rep w] by auto
next
  case (OpPromoteServerEntry c ip)
  then show ?thesis using ranked_Promote[of flt c ip w] by auto
qed (simp_all add: ranked_StorePersistentStat ranked_TakeOut ranked_PutBack ranked_Clear
                   ranked_Count)

lemma step_rankedInv:
  assumes "length (rankedVector w) \<le> rankedServerEntryCount \<and> distinct (rankedVector w)"
  shows "length (rankedVector (step valid j flt op w)) \<le> rankedServerEntryCount \<and>
         distinct (rankedVector (step valid j flt op w))"
  using step_ranked[of valid j flt op w] assms
  by (auto simp: length_insertRanked distinct_insertRanked)

lemma run_rankedInv:
  assumes "length (rankedVector w) \<le> rankedServerEntryCount \<and> distinct (rankedVector w)"
  shows "length (rankedVector (run valid j ops w)) \<le> rankedServerEntryCount \<and>
         distinct (rankedVector (run valid j ops w))"
  using assms
proof (induction ops arbitrary: w)
  case Nil
  then show ?case by simp
next
  case (Cons a ops)
  obtain flt op where a: "a = (flt, op)" by (cases a)
  from Cons.IH[OF step_rankedInv[OF Cons.prems, of valid j flt op]] a
  show ?case by simp
qed

lemma rankedVector_freshWorld: "rankedVector freshWorld = []"
  by (simp add: freshWorld_def rankedVector_def rankedOf_def getRankedServerEntries_def
                emptyDatastore_def)

text \<open>
  C1.  For every sequence of operations (StoreServerEntry, PromoteServerEntry, iterator
  creation, stat queue calls), whatever the validator, the JSON test and the storage
  faults of each call, starting from an empty datastore: the ranked vector has at most
  100 entries and no IP address occurs in it twice.
\<close>

theorem ranked_vector_capped_and_distinct:
  "length (rankedVector (run valid jsonValid ops freshWorld)) \<le> 100 \<and>
   distinct (rankedVector (run valid jsonValid ops freshWorld))"
proof -
  have "length (rankedVector freshWorld) \<le> rankedServerEntryCount \<and>
        distinct (rankedVector freshWorld)"
    by (simp add: rankedVector_freshWorld)
  from run_rankedInv[OF this, of valid jsonValid ops] show ?thesis
    by (simp add: rankedServerEntryCount_def)
qed

subsection \<open>The import scenario\<close>

lemma storeThree_ranked:
  assumes "valid a" "valid b" "valid c"
    and "IpAddress a \<noteq> IpAddress b" "IpAddress a \<noteq> IpAddress c" "IpAddress b \<noteq> IpAddress c"
  shows "rankedVector (storeThree valid a b c) = [IpAddress a, IpAddress c, IpAddress b]"
  using assms
  by (simp add: storeThree_def StoreServerEntry_def dataStoreUpdate_def storeServerEntryTx_def
        existingVersion_def errorOf_def insertRankedServerEntry_def setRankedServerEntries_def noFaults_def
        getRankedServerEntries_def Let_def freshWorld_def emptyDatastore_def
        rankedVector_def rankedOf_def insertRanked_1_nil insertRanked_1_one insertRanked_1_two)

text \<open>
  C4, as the code has it.  Starting from an empty datastore, after StoreServerEntry of
  relay A, then B, then C (three distinct IP addresses the validator accepts), each with
  replaceIfExists = false, the ranked vector is [A, C, B]: the first entry stored stays
  at the head, and every later one is inserted right behind it, at position 1.
\<close>

theorem store_three_ranked_A_C_B:
  assumes "valid a" "valid b" "valid c"
    and "IpAddress a \<noteq> IpAddress b" "IpAddress a \<noteq> IpAddress c" "IpAddress b \<noteq> IpAddress c"
  shows "rankedVector (storeThree valid a b c) = [IpAddress a, IpAddress c, IpAddress b]"
  using assms by (rule storeThree_ranked)

theorem store_three_ranked_A_C_B_witness:
  "rankedVector (storeThree hasIpAddress relayA relayB relayC) =
     [''192.0.2.1'', ''192.0.2.3'', ''192.0.2.2'']"
  using store_three_ranked_A_C_B[of hasIpAddress relayA relayB relayC]
  by (simp add: relayA_def relayB_def relayC_def hasIpAddress_def)

text \<open>C4 as stated fails: the vector is not [C, B, A].\<close>

theorem store_three_not_C_B_A:
  "rankedVector (storeThree hasIpAddress relayA relayB relayC)
     \<noteq> [IpAddress relayC, IpAddress relayB, IpAddress relayA]"
  by (simp add: storeThree_ranked relayA_def relayB_def relayC_def hasIpAddress_def)

section \<open>Transactions, promotion and the server registry\<close>

subsection \<open>Commit and rollback\<close>

lemma update_failure_keeps_store:
  "dataStoreUpdate fn w = (Inl e, w') \<Longrightarrow> store w' = store w"
  by (auto simp: dataStoreUpdate_def split: store_state.splits prod.splits sum.splits)

lemma update_success:
  "store w = Opened d \<Longrightarrow> dataStoreUpdate fn w = (Inr x, w') \<Longrightarrow>
   \<exists>ns d'. fn d = (ns, Inr (x, d')) \<and> w' = w\<lparr>store := Opened d', notices := notices w @ ns\<rparr>"
  by (auto simp: dataStoreUpdate_def split: prod.splits sum.splits)

lemma errorOf_Some: "errorOf r = (Some e, w') \<Longrightarrow> r = (Inl e, w')"
  by (cases r; cases "fst r") (auto simp: errorOf_def)

lemma errorOf_None: "errorOf r = (None, w') \<Longrightarrow> \<exists>x. r = (Inr x, w')"
  by (cases r; cases "fst r") (auto simp: errorOf_def)

lemmas store_defs = StoreServerEntry_def dataStoreUpdate_def storeServerEntryTx_def
  existingVersion_def errorOf_def insertRankedServerEntry_def setRankedServerEntries_def noFaults_def
  getRankedServerEntries_def Let_def freshWorld_def emptyDatastore_def
  rankedVector_def rankedOf_def insertRanked_1_nil insertRanked_1_one insertRanked_1_two

lemmas promote_defs = PromoteServerEntry_def dataStoreUpdate_def promoteServerEntryTx_def
  errorOf_def insertRankedServerEntry_def setRankedServerEntries_def noFaults_def
  getRankedServerEntries_def makeServerEntryFilterValue_def

subsection \<open>PromoteServerEntry\<close>

lemma promoteTx_absent:
  "serverEntries d ip = None \<Longrightarrow>
   promoteServerEntryTx flt config ip d =
     ([NoticeAlert (''PromoteServerEntry: ignoring unknown server entry: '' @ ip)], Inr ((), d))"
  by (simp add: promoteServerEntryTx_def)

lemma promoteTx_present:
  assumes "serverEntries d ip = Some data"
    and "promoteServerEntryTx flt config ip d = (ns, Inr (r, d'))"
  shows "\<exists>ids. getRankedServerEntries d = Inr ids \<and>
           d' = d\<lparr>rankedServerEntries :=
                    (rankedServerEntries d)(rankedServerEntriesKey \<mapsto>
                       RankedJSON (insertRanked ip 0 ids)),
                  keyValues := (keyValues d)(DATA_STORE_LAST_SERVER_ENTRY_FILTER_KEY \<mapsto>
                       EgressRegion config)\<rparr>"
  using assms
  by (auto simp: promoteServerEntryTx_def insertRankedServerEntry_def setRankedServerEntries_def
                 makeServerEntryFilterValue_def
           split: sum.splits if_splits)

lemma promoteTx_success:
  assumes "serverEntries d ip = Some data"
    and "\<not> flt rankedServerEntriesBucket rankedServerEntriesKey"
    and "\<not> flt keyValueBucket DATA_STORE_LAST_SERVER_ENTRY_FILTER_KEY"
    and "getRankedServerEntries d = Inr ids"
  shows "promoteServerEntryTx flt config ip d = ([], Inr ((), promotedEntry d config ip))"
  using assms
  by (simp add: promoteServerEntryTx_def insertRankedServerEntry_def setRankedServerEntries_def
                makeServerEntryFilterValue_def promotedEntry_def rankedOf_def)

lemma promotedEntry_ranked:
  "getRankedServerEntries (promotedEntry d config ip) = Inr (insertRanked ip 0 (rankedOf d))"
  "rankedOf (promotedEntry d config ip) = insertRanked ip 0 (rankedOf d)"
  "keyValues (promotedEntry d config ip) DATA_STORE_LAST_SERVER_ENTRY_FILTER_KEY =
     Some (EgressRegion config)"
  by (simp_all add: promotedEntry_def rankedOf_def getRankedServerEntries_def)

text \<open>
  C2.  On an open datastore, whatever the config and the IP address whose record exists:
  PromoteServerEntry succeeds when the ranked vector is readable and neither of its two
  writes meets a storage fault, and after a successful call the datastore is the one
  before with the IP address inserted at position 0 of the ranked vector and the filter
  value computed from the config, its egress region, stored; so the ranked vector is
  readable and its head R[0] is the IP address.  If no record exists, the call succeeds,
  logs the alert and leaves the datastore as it was.  The two writes are one Update
  transaction: when the call fails, nothing is written.
\<close>

theorem promote_head_and_filter:
  assumes "store w = Opened d" and "PromoteServerEntry flt config ip w = (res, w')"
  shows "(serverEntries d ip \<noteq> None \<and>
          \<not> flt rankedServerEntriesBucket rankedServerEntriesKey \<and>
          \<not> flt keyValueBucket DATA_STORE_LAST_SERVER_ENTRY_FILTER_KEY \<and>
          getRankedServerEntries d = Inr (rankedOf d) \<longrightarrow> res = None)
       \<and> (serverEntries d ip \<noteq> None \<and> res = None \<longrightarrow>
            w' = w\<lparr>store := Opened (promotedEntry d config ip)\<rparr> \<and>
            getRankedServerEntries (promotedEntry d config ip) =
              Inr (rankedOf (promotedEntry d config ip)) \<and>
            rankedOf (promotedEntry d config ip) = insertRanked ip 0 (rankedOf d) \<and>
            rankedOf (promotedEntry d config ip) \<noteq> [] \<and>
            rankedOf (promotedEntry d config ip) ! 0 = ip \<and>
            makeServerEntryFilterValue config = Inr (EgressRegion config) \<and>
            keyValues (promotedEntry d config ip) DATA_STORE_LAST_SERVER_ENTRY_FILTER_KEY =
              Some (EgressRegion config))
       \<and> (serverEntries d ip = None \<longrightarrow>
            res = None \<and> store w' = store w \<and>
            notices w' = notices w @
              [NoticeAlert (''PromoteServerEntry: ignoring unknown server entry: '' @ ip)])
       \<and> (res \<noteq> None \<longrightarrow> store w' = store w)"
proof -
  have c0: "res = None"
    if "serverEntries d ip \<noteq> None \<and>
        \<not> flt rankedServerEntriesBucket rankedServerEntriesKey \<and>
        \<not> flt keyValueBucket DATA_STORE_LAST_SERVER_ENTRY_FILTER_KEY \<and>
        getRankedServerEntries d = Inr (rankedOf d)"
  proof -
    from that obtain data where data: "serverEntries d ip = Some data" by auto
    from that promoteTx_success[OF data, of flt "rankedOf d" config]
    have "promoteServerEntryTx flt config ip d = ([], Inr ((), promotedEntry d config ip))"
      by simp
    with assms show ?thesis
      by (simp add: PromoteServerEntry_def dataStoreUpdate_def errorOf_def)
  qed
  have c1: "w' = w\<lparr>store := Opened (promotedEntry d config ip)\<rparr> \<and>
            getRankedServerEntries (promotedEntry d config ip) =
              Inr (rankedOf (promotedEntry d config ip)) \<and>
            rankedOf (promotedEntry d config ip) = insertRanked ip 0 (rankedOf d) \<and>
            rankedOf (promotedEntry d config ip) \<noteq> [] \<and>
            rankedOf (promotedEntry d config ip) ! 0 = ip \<and>
            makeServerEntryFilterValue config = Inr (EgressRegion config) \<and>
            keyValues (promotedEntry d config ip) DATA_STORE_LAST_SERVER_ENTRY_FILTER_KEY =
              Some (EgressRegion config)"
    if a: "serverEntries d ip \<noteq> None \<and> res = None"
  proof -
    from a obtain data where data: "serverEntries d ip = Some data" by auto
    from a assms(2) obtain x where
      "dataStoreUpdate (promoteServerEntryTx flt config ip) w = (Inr x, w')"
      unfolding PromoteServerEntry_def by (auto dest: errorOf_None)
    from update_success[OF assms(1) this] obtain ns d' where
      tx: "promoteServerEntryTx flt config ip d = (ns, Inr (x, d'))" and
      w': "w' = w\<lparr>store := Opened d', notices := notices w @ ns\<rparr>" by blast
    from promoteTx_present[OF data tx] obtain ids where
      ids: "getRankedServerEntries d = Inr ids" and
      d': "d' = d\<lparr>rankedServerEntries :=
                      (rankedServerEntries d)(rankedServerEntriesKey \<mapsto>
                         RankedJSON (insertRanked ip 0 ids)),
                    keyValues := (keyValues d)(DATA_STORE_LAST_SERVER_ENTRY_FILTER_KEY \<mapsto>
                         EgressRegion config)\<rparr>"
      by blast
    from ids d' have dp: "d' = promotedEntry d config ip"
      by (simp add: promotedEntry_def rankedOf_def)
    from tx data have ns: "ns = []"
      by (auto simp: promoteServerEntryTx_def split: sum.splits if_splits)
    have h: "insertRanked ip 0 (rankedOf d) \<noteq> [] \<and> insertRanked ip 0 (rankedOf d) ! 0 = ip"
      using insertRanked_head[of ip "rankedOf d"] by (metis list.discI nth_Cons_0)
    from w' dp ns h show ?thesis
      by (simp add: promotedEntry_ranked makeServerEntryFilterValue_def)
  qed
  have c2: "res = None \<and> store w' = store w \<and>
            notices w' = notices w @
              [NoticeAlert (''PromoteServerEntry: ignoring unknown server entry: '' @ ip)]"
    if n: "serverEntries d ip = None"
  proof -
    from assms n
    have "res = None \<and> w' = w\<lparr>store := Opened d, notices := notices w @
                [NoticeAlert (''PromoteServerEntry: ignoring unknown server entry: '' @ ip)]\<rparr>"
      by (auto simp: PromoteServerEntry_def dataStoreUpdate_def promoteTx_absent errorOf_def)
    with assms(1) show ?thesis by simp
  qed
  have c3: "store w' = store w" if "res \<noteq> None"
  proof -
    from that obtain e where "res = Some e" by auto
    with assms(2) show ?thesis
      unfolding PromoteServerEntry_def
      by (auto dest!: errorOf_Some update_failure_keeps_store)
  qed
  from c0 c1 c2 c3 show ?thesis by blast
qed

lemma insertRanked_0_last: "a \<noteq> b \<Longrightarrow> c \<noteq> b \<Longrightarrow> insertRanked b 0 [a, c, b] = [b, a, c]"
  by (simp add: insertRanked_def copyRight_def rankedServerEntryCount_def)

text \<open>
  The scenario: after the three relays are stored the vector is [A, C, B]; promoting B
  under region CA succeeds, moves B to the head, giving [B, A, C], and stores the filter
  CA; promoting an unknown address on the empty datastore only logs the alert.
\<close>

theorem promote_head_and_filter_witness:
  "rankedVector (storeThree hasIpAddress relayA relayB relayC) =
     [''192.0.2.1'', ''192.0.2.3'', ''192.0.2.2'']
   \<and> fst (PromoteServerEntry noFaults cfgCA ''192.0.2.2''
          (storeThree hasIpAddress relayA relayB relayC)) = None
   \<and> rankedVector (snd (PromoteServerEntry noFaults cfgCA ''192.0.2.2''
          (storeThree hasIpAddress relayA relayB relayC))) =
       [''192.0.2.2'', ''192.0.2.1'', ''192.0.2.3'']
   \<and> lastServerEntryFilter (snd (PromoteServerEntry noFaults cfgCA ''192.0.2.2''
          (storeThree hasIpAddress relayA relayB relayC))) = Some ''CA''
   \<and> PromoteServerEntry noFaults cfgCA ''192.0.2.9'' freshWorld =
       (None, freshWorld\<lparr>notices :=
          [NoticeAlert ''PromoteServerEntry: ignoring unknown server entry: 192.0.2.9'']\<rparr>)"
proof -
  let ?w = "storeThree hasIpAddress relayA relayB relayC"
  let ?r = "PromoteServerEntry noFaults cfgCA ''192.0.2.2'' ?w"
  let ?q = "PromoteServerEntry noFaults cfgCA ''192.0.2.9'' freshWorld"
  define d where "d = emptyDatastore\<lparr>serverEntries :=
       [''192.0.2.1'' \<mapsto> EntryJSON relayA, ''192.0.2.2'' \<mapsto> EntryJSON relayB,
        ''192.0.2.3'' \<mapsto> EntryJSON relayC],
     rankedServerEntries := [rankedServerEntriesKey \<mapsto>
        RankedJSON [''192.0.2.1'', ''192.0.2.3'', ''192.0.2.2'']]\<rparr>"
  have s: "store ?w = Opened d"
    by (simp add: d_def storeThree_def store_defs hasIpAddress_def relayA_def relayB_def
                  relayC_def)
  have v0: "rankedVector ?w = [''192.0.2.1'', ''192.0.2.3'', ''192.0.2.2'']"
    by (simp add: rankedVector_def s) (simp add: d_def rankedOf_def getRankedServerEntries_def)
  have rk: "rankedOf d = [''192.0.2.1'', ''192.0.2.3'', ''192.0.2.2'']"
       "getRankedServerEntries d = Inr (rankedOf d)"
    by (simp_all add: d_def rankedOf_def getRankedServerEntries_def)
  have p: "serverEntries d ''192.0.2.2'' \<noteq> None"
    by (simp add: d_def)
  have nf: "\<not> noFaults rankedServerEntriesBucket rankedServerEntriesKey"
       "\<not> noFaults keyValueBucket DATA_STORE_LAST_SERVER_ENTRY_FILTER_KEY"
    by (simp_all add: noFaults_def)
  note t = promote_head_and_filter[of ?w d noFaults cfgCA "''192.0.2.2''" "fst ?r" "snd ?r",
                                   OF s surjective_pairing]
  from t p nf rk(2) have ok: "fst ?r = None" by blast
  from t p ok have w': "snd ?r = ?w\<lparr>store := Opened (promotedEntry d cfgCA ''192.0.2.2'')\<rparr>"
    and r': "rankedOf (promotedEntry d cfgCA ''192.0.2.2'') = insertRanked ''192.0.2.2'' 0 (rankedOf d)"
    and k': "keyValues (promotedEntry d cfgCA ''192.0.2.2'') DATA_STORE_LAST_SERVER_ENTRY_FILTER_KEY =
              Some (EgressRegion cfgCA)"
    by blast+
  have a: "rankedVector (snd ?r) = [''192.0.2.2'', ''192.0.2.1'', ''192.0.2.3'']"
    by (simp add: w' rankedVector_def r' rk(1) insertRanked_0_last)
  have "lastServerEntryFilter (snd ?r) = Some (EgressRegion cfgCA)"
    by (simp add: w' lastServerEntryFilter_def k')
  then have f: "lastServerEntryFilter (snd ?r) = Some ''CA''"
    by (simp add: cfgCA_def)
  have s0: "store freshWorld = Opened emptyDatastore" by (simp add: freshWorld_def)
  have n: "serverEntries emptyDatastore ''192.0.2.9'' = None" by (simp add: emptyDatastore_def)
  from promote_head_and_filter[of freshWorld emptyDatastore noFaults cfgCA "''192.0.2.9''"
                                  "fst ?q" "snd ?q", OF s0 surjective_pairing] n
  have "fst ?q = None \<and> store (snd ?q) = store freshWorld \<and>
        notices (snd ?q) = notices freshWorld @
          [NoticeAlert (''PromoteServerEntry: ignoring unknown server entry: '' @ ''192.0.2.9'')]"
    by simp
  then have b: "?q = (None, freshWorld\<lparr>notices :=
          [NoticeAlert ''PromoteServerEntry: ignoring unknown server entry: 192.0.2.9'']\<rparr>)"
    by (simp add: prod_eq_iff freshWorld_def)
  from v0 ok a f b show ?thesis by simp
qed

subsection \<open>StoreServerEntry\<close>

lemma getRanked_serverEntries [simp]:
  "getRankedServerEntries (d\<lparr>serverEntries := m\<rparr>) = getRankedServerEntries d"
  by (simp add: getRankedServerEntries_def)

lemma existingVersion_decoded:
  "serverEntries d ip \<noteq> Some EntryNull \<Longrightarrow>
   existingVersion d ip = Inr (case decodedExisting d ip of None \<Rightarrow> - 1 | Some v \<Rightarrow> v)"
  by (auto simp: existingVersion_def decodedExisting_def
           split: option.splits entry_data.splits)

lemma existingVersion_null:
  "serverEntries d ip = Some EntryNull \<Longrightarrow> existingVersion d ip = Inl NilPointerPanic"
  by (simp add: existingVersion_def)

lemma decodedExisting_not_null:
  "decodedExisting d ip = Some v \<Longrightarrow> serverEntries d ip \<noteq> Some EntryNull"
  by (auto simp: decodedExisting_def)

lemma storeTx_null:
  "serverEntries d (IpAddress f) = Some EntryNull \<Longrightarrow>
   storeServerEntryTx flt f rep d = ([], Inl NilPointerPanic)"
  by (simp add: storeServerEntryTx_def existingVersion_null)

lemma storeTx_skip:
  "\<not> writeCondition d f rep \<Longrightarrow> storeServerEntryTx flt f rep d = ([], Inr ((), d))"
proof -
  assume a: "\<not> writeCondition d f rep"
  then obtain v where v: "decodedExisting d (IpAddress f) = Some v"
    by (auto simp: writeCondition_def split: option.splits)
  from existingVersion_decoded[OF decodedExisting_not_null[OF v]] v
  have "existingVersion d (IpAddress f) = Inr v" by simp
  with a v show ?thesis
    by (auto simp: storeServerEntryTx_def writeCondition_def Let_def)
qed

lemma storeTx_write:
  assumes "writeCondition d f rep" and "storeServerEntryTx flt f rep d = (ns, Inr (r, d'))"
  shows "d' = writtenEntry d f \<and> ns = [NoticeInfo (''updated server '' @ IpAddress f)]"
proof -
  from assms(2) have nn: "serverEntries d (IpAddress f) \<noteq> Some EntryNull"
    by (auto simp: storeTx_null)
  from assms existingVersion_decoded[OF nn] show ?thesis
    by (auto simp: storeServerEntryTx_def writeCondition_def Let_def
                   writtenEntry_def insertRankedServerEntry_def setRankedServerEntries_def
                   rankedOf_def getRankedServerEntries_def
             split: option.splits if_splits sum.splits ranked_data.splits)
qed

lemma storeTx_no_fault:
  assumes "serverEntries d (IpAddress f) \<noteq> Some EntryNull"
    and "\<not> flt serverEntriesBucket (IpAddress f)"
    and "\<not> flt rankedServerEntriesBucket rankedServerEntriesKey"
    and "getRankedServerEntries d = Inr ids"
  shows "\<exists>ns d'. storeServerEntryTx flt f rep d = (ns, Inr ((), d'))"
  using assms existingVersion_decoded[OF assms(1)]
  by (auto simp: storeServerEntryTx_def Let_def insertRankedServerEntry_def
                 setRankedServerEntries_def)

text \<open>
  What StoreServerEntry does, for fields the validator accepts, on an open datastore.  A
  successful call writes the record exactly under the condition the code tests, and with
  it inserts the IP address into the ranked vector at position 1, in the same
  transaction; a failed call writes nothing; the call succeeds when the stored value is
  not null, the ranked vector is readable and neither write meets a storage fault; on a
  stored null it panics.
\<close>

lemma StoreServerEntry_effect:
  assumes "valid f" and "store w = Opened d"
    and "StoreServerEntry valid flt f rep w = (res, w')"
  shows "(res = None \<and> writeCondition d f rep \<longrightarrow>
            store w' = Opened (writtenEntry d f) \<and>
            notices w' = notices w @ [NoticeInfo (''updated server '' @ IpAddress f)])
       \<and> (res = None \<and> \<not> writeCondition d f rep \<longrightarrow> w' = w)
       \<and> (res \<noteq> None \<longrightarrow> store w' = store w)
       \<and> (serverEntries d (IpAddress f) \<noteq> Some EntryNull \<and>
          \<not> flt serverEntriesBucket (IpAddress f) \<and>
          \<not> flt rankedServerEntriesBucket rankedServerEntriesKey \<and>
          getRankedServerEntries d = Inr (rankedOf d) \<longrightarrow> res = None)
       \<and> (serverEntries d (IpAddress f) = Some EntryNull \<longrightarrow> res = Some NilPointerPanic)"
proof -
  from assms(1,3)
  have eq: "errorOf (dataStoreUpdate (storeServerEntryTx flt f rep) w) = (res, w')"
    by (simp add: StoreServerEntry_def)
  have succ: "\<exists>ns d'. storeServerEntryTx flt f rep d = (ns, Inr ((), d')) \<and>
                w' = w\<lparr>store := Opened d', notices := notices w @ ns\<rparr>" if "res = None"
  proof -
    from eq that obtain x where "dataStoreUpdate (storeServerEntryTx flt f rep) w = (Inr x, w')"
      by (auto dest: errorOf_None)
    from update_success[OF assms(2) this] show ?thesis by auto
  qed
  have c1: "store w' = Opened (writtenEntry d f) \<and>
            notices w' = notices w @ [NoticeInfo (''updated server '' @ IpAddress f)]"
    if "res = None \<and> writeCondition d f rep"
  proof -
    from succ that obtain ns d' where tx: "storeServerEntryTx flt f rep d = (ns, Inr ((), d'))"
      and w': "w' = w\<lparr>store := Opened d', notices := notices w @ ns\<rparr>" by blast
    from storeTx_write[OF _ tx] that w' show ?thesis by simp
  qed
  have c2: "w' = w" if "res = None \<and> \<not> writeCondition d f rep"
  proof -
    from succ that obtain ns d' where tx: "storeServerEntryTx flt f rep d = (ns, Inr ((), d'))"
      and w': "w' = w\<lparr>store := Opened d', notices := notices w @ ns\<rparr>" by blast
    from that tx have "ns = [] \<and> d' = d" by (simp add: storeTx_skip)
    with w' assms(2) show ?thesis by simp
  qed
  have c3: "store w' = store w" if "res \<noteq> None"
  proof -
    from that obtain e where "res = Some e" by auto
    with eq show ?thesis by (auto dest!: errorOf_Some update_failure_keeps_store)
  qed
  have c4: "res = None"
    if "serverEntries d (IpAddress f) \<noteq> Some EntryNull \<and>
        \<not> flt serverEntriesBucket (IpAddress f) \<and>
        \<not> flt rankedServerEntriesBucket rankedServerEntriesKey \<and>
        getRankedServerEntries d = Inr (rankedOf d)"
  proof -
    from that storeTx_no_fault[of d f flt "rankedOf d" rep]
    obtain ns d' where "storeServerEntryTx flt f rep d = (ns, Inr ((), d'))" by blast
    with eq assms(2) show ?thesis
      by (simp add: dataStoreUpdate_def errorOf_def)
  qed
  have c5: "res = Some NilPointerPanic" if "serverEntries d (IpAddress f) = Some EntryNull"
    using eq assms(2) storeTx_null[OF that, of flt rep]
    by (simp add: dataStoreUpdate_def errorOf_def)
  from c1 c2 c3 c4 c5 show ?thesis by blast
qed

text \<open>
  The version policy at work: over a stored A of version 1, A of version 2 is written
  without replaceIfExists; over a stored A of version 2, A of version 1 is ignored.
\<close>

lemma version_policy_scenario:
  "fst (StoreServerEntry hasIpAddress noFaults relayA2 False (worldOf (dbWith relayA))) = None
   \<and> store (snd (StoreServerEntry hasIpAddress noFaults relayA2 False (worldOf (dbWith relayA))))
       = Opened (writtenEntry (dbWith relayA) relayA2)
   \<and> StoreServerEntry hasIpAddress noFaults relayA False (worldOf (dbWith relayA2))
       = (None, worldOf (dbWith relayA2))"
proof -
  let ?r1 = "StoreServerEntry hasIpAddress noFaults relayA2 False (worldOf (dbWith relayA))"
  let ?r2 = "StoreServerEntry hasIpAddress noFaults relayA False (worldOf (dbWith relayA2))"
  have v: "hasIpAddress relayA2" "hasIpAddress relayA"
    by (simp_all add: hasIpAddress_def relayA2_def relayA_def)
  have s: "store (worldOf (dbWith relayA)) = Opened (dbWith relayA)"
          "store (worldOf (dbWith relayA2)) = Opened (dbWith relayA2)"
    by (simp_all add: worldOf_def)
  have c1: "writeCondition (dbWith relayA) relayA2 False"
    by (simp add: writeCondition_def decodedExisting_def dbWith_def relayA_def relayA2_def)
  have c2: "\<not> writeCondition (dbWith relayA2) relayA False"
    by (simp add: writeCondition_def decodedExisting_def dbWith_def relayA_def relayA2_def)
  have nn: "serverEntries (dbWith relayA) (IpAddress relayA2) \<noteq> Some EntryNull"
      "serverEntries (dbWith relayA2) (IpAddress relayA) \<noteq> Some EntryNull"
    by (simp_all add: dbWith_def relayA_def relayA2_def)
  have nf: "\<not> noFaults serverEntriesBucket (IpAddress relayA2)"
      "\<not> noFaults serverEntriesBucket (IpAddress relayA)"
      "\<not> noFaults rankedServerEntriesBucket rankedServerEntriesKey"
    by (simp_all add: noFaults_def)
  have g: "getRankedServerEntries (dbWith relayA) = Inr (rankedOf (dbWith relayA))"
      "getRankedServerEntries (dbWith relayA2) = Inr (rankedOf (dbWith relayA2))"
    by (simp_all add: getRankedServerEntries_def rankedOf_def dbWith_def)
  from StoreServerEntry_effect[of hasIpAddress relayA2 "worldOf (dbWith relayA)"
          "dbWith relayA" noFaults False "fst ?r1" "snd ?r1", OF v(1) s(1) surjective_pairing]
       c1 nn nf g
  have a: "fst ?r1 = None \<and> store (snd ?r1) = Opened (writtenEntry (dbWith relayA) relayA2)"
    by simp
  from StoreServerEntry_effect[of hasIpAddress relayA "worldOf (dbWith relayA2)"
          "dbWith relayA2" noFaults False "fst ?r2" "snd ?r2", OF v(2) s(2) surjective_pairing]
       c2 nn nf g
  have b: "fst ?r2 = None \<and> snd ?r2 = worldOf (dbWith relayA2)"
    by simp
  from a b show ?thesis by (simp add: prod_eq_iff)
qed

text \<open>
  The two conditions part only where both versions are negative: whenever the version of
  the new fields is not negative, the condition the code tests is the condition in the
  words of the claim.
\<close>

lemma writeCondition_claimed:
  "0 \<le> ConfigurationVersion f \<Longrightarrow> writeCondition d f rep = writeConditionAsClaimed d f rep"
  by (auto simp: writeCondition_def writeConditionAsClaimed_def split: option.splits)

text \<open>
  C3 on the code.  The existing record at the fields' IP address decodes, and its
  configuration version is negative; replaceIfExists is false and the existing version is
  not strictly less than the fields' version, so by the claim, and by the doc comment of
  StoreServerEntry (replaced only if replaceIfExists is set or the new version is strictly
  higher), the record is kept.  StoreServerEntry replaces it: the negative version meets
  the sentinel -1 that stands for "no record", the test for an existing record fails, and
  the record is written and ranked.
\<close>

theorem store_replaces_negative_version:
  assumes "valid f" and "store w = Opened d"
    and "decodedExisting d (IpAddress f) = Some version" and "version < 0"
    and "\<not> writeConditionAsClaimed d f replaceIfExists"
    and "\<not> flt serverEntriesBucket (IpAddress f)"
    and "\<not> flt rankedServerEntriesBucket rankedServerEntriesKey"
    and "getRankedServerEntries d = Inr (rankedOf d)"
  shows "StoreServerEntry valid flt f replaceIfExists w =
           (None, w\<lparr>store := Opened (writtenEntry d f),
                    notices := notices w @ [NoticeInfo (''updated server '' @ IpAddress f)]\<rparr>)"
proof -
  let ?r = "StoreServerEntry valid flt f replaceIfExists w"
  have wc: "writeCondition d f replaceIfExists"
    using assms(3,4) by (simp add: writeCondition_def)
  note e = StoreServerEntry_effect[of valid f w d flt replaceIfExists "fst ?r" "snd ?r",
                                   OF assms(1,2) surjective_pairing]
  from e decodedExisting_not_null[OF assms(3)] assms(6,7,8) have ok: "fst ?r = None"
    by blast
  from e ok wc have "store (snd ?r) = Opened (writtenEntry d f)"
      "notices (snd ?r) = notices w @ [NoticeInfo (''updated server '' @ IpAddress f)]"
    by blast+
  then have "snd ?r = w\<lparr>store := Opened (writtenEntry d f),
                    notices := notices w @ [NoticeInfo (''updated server '' @ IpAddress f)]\<rparr>"
    by (cases "snd ?r"; cases w) simp
  with ok show ?thesis by (simp add: prod_eq_iff)
qed

text \<open>
  The failing input, from the empty datastore: an entry of version -5 is stored and
  decodes; storing the same address with version -10 and replaceIfExists = false
  replaces it.
\<close>

theorem store_replaces_negative_version_witness:
  "store (snd (StoreServerEntry hasIpAddress noFaults entryMinus5 False freshWorld))
       = Opened (dbWith entryMinus5)
   \<and> decodedExisting (dbWith entryMinus5) ''192.0.2.1'' = Some (- 5)
   \<and> ConfigurationVersion entryMinus10 = - 10
   \<and> StoreServerEntry hasIpAddress noFaults entryMinus10 False (worldOf (dbWith entryMinus5))
       = (None, \<lparr> store = Opened (writtenEntry (dbWith entryMinus5) entryMinus10),
                  notices = [NoticeInfo ''updated server 192.0.2.1''] \<rparr>)
   \<and> serverEntries (writtenEntry (dbWith entryMinus5) entryMinus10) ''192.0.2.1''
       = Some (EntryJSON entryMinus10)"
proof -
  have a: "store (snd (StoreServerEntry hasIpAddress noFaults entryMinus5 False freshWorld))
       = Opened (dbWith entryMinus5)"
    by (simp add: store_defs hasIpAddress_def entryMinus5_def dbWith_def)
  have v: "hasIpAddress entryMinus10"
    by (simp add: hasIpAddress_def entryMinus10_def)
  have s: "store (worldOf (dbWith entryMinus5)) = Opened (dbWith entryMinus5)"
    by (simp add: worldOf_def)
  have ip: "IpAddress entryMinus10 = ''192.0.2.1''"
    by (simp add: entryMinus10_def)
  have dec: "decodedExisting (dbWith entryMinus5) (IpAddress entryMinus10) = Some (- 5)"
    by (simp add: decodedExisting_def dbWith_def entryMinus5_def entryMinus10_def)
  have neg: "(- 5 :: int) < 0" by simp
  have nc: "\<not> writeConditionAsClaimed (dbWith entryMinus5) entryMinus10 False"
    by (simp add: writeConditionAsClaimed_def decodedExisting_def dbWith_def entryMinus5_def
                  entryMinus10_def)
  have nf: "\<not> noFaults serverEntriesBucket (IpAddress entryMinus10)"
      "\<not> noFaults rankedServerEntriesBucket rankedServerEntriesKey"
    by (simp_all add: noFaults_def)
  have g: "getRankedServerEntries (dbWith entryMinus5) = Inr (rankedOf (dbWith entryMinus5))"
    by (simp add: getRankedServerEntries_def rankedOf_def dbWith_def)
  from store_replaces_negative_version[of hasIpAddress entryMinus10 "worldOf (dbWith entryMinus5)"
         "dbWith entryMinus5" "- 5" False noFaults, OF v s dec neg nc nf g]
  have b: "StoreServerEntry hasIpAddress noFaults entryMinus10 False (worldOf (dbWith entryMinus5))
       = (None, \<lparr> store = Opened (writtenEntry (dbWith entryMinus5) entryMinus10),
                  notices = [NoticeInfo ''updated server 192.0.2.1''] \<rparr>)"
    by (simp add: worldOf_def ip)
  have c: "serverEntries (writtenEntry (dbWith entryMinus5) entryMinus10) ''192.0.2.1''
       = Some (EntryJSON entryMinus10)"
    by (simp add: writtenEntry_def entryMinus10_def)
  from a dec b c ip show ?thesis by (simp add: entryMinus10_def)
qed

section \<open>Bulk import\<close>








section \<open>The persistent stat queue\<close>

lemmas const_defs = serverEntriesBucket_def rankedServerEntriesBucket_def
  rankedServerEntriesKey_def splitTunnelRouteETagsBucket_def splitTunnelRouteDataBucket_def
  keyValueBucket_def remoteServerListStatsBucket_def DATA_STORE_LAST_SERVER_ENTRY_FILTER_KEY_def
  PERSISTENT_STAT_TYPE_REMOTE_SERVER_LIST_def persistentStatStateUnreported_def
  persistentStatStateReporting_def persistentStatTypes_def

lemmas stat_defs = StorePersistentStat_def TakeOutUnreportedPersistentStats_def
  PutBackUnreportedPersistentStats_def CountUnreportedPersistentStats_def
  resetAllPersistentStatsToUnreported_def OpenDataStore_def crash_def
  dataStoreUpdate_def dataStoreView_def errorOf_def txOf_def setStatBucket_def statsOf_def
  noFaults_def freshWorld_def emptyDatastore_def quietIO_def opensJSON_def stat1_def stat2_def
  statBucketOf_def statsTaken_def numeral_3_eq_3 worldOf_def statsDb_def

subsection \<open>Taking out and putting back\<close>

text \<open>With room for every record, the cursor loop takes all unreported keys that parse.\<close>

lemma takeOutCursor_full:
  assumes "count + int (length b) \<le> m"
  shows "statsOf (fst (snd (takeOutCursor j m T b (count, st, ns)))) T =
           statsOf st T @ unreportedKeys j b"
  using assms
proof (induction b arbitrary: count st ns)
  case Nil
  then show ?case by (simp add: unreportedKeys_def)
next
  case (Cons a b)
  obtain k v where a: "a = (k, v)" by (cases a)
  from Cons.prems have lt: "\<not> m \<le> count" and n1: "count + int (length b) \<le> m"
    and n2: "(count + 1) + int (length b) \<le> m" by simp_all
  show ?case
  proof (cases "j k \<and> v = persistentStatStateUnreported")
    case True
    have u: "unreportedKeys j (a # b) = k # unreportedKeys j b"
      using True a by (simp add: unreportedKeys_def)
    have t: "takeOutCursor j m T (a # b) (count, st, ns) =
             takeOutCursor j m T b (count + 1, st(T \<mapsto> statsOf st T @ [k]), ns)"
      using True a lt by simp
    have "statsOf (st(T \<mapsto> statsOf st T @ [k])) T = statsOf st T @ [k]"
      by (simp add: statsOf_def)
    with Cons.IH[OF n2, of "st(T \<mapsto> statsOf st T @ [k])" ns]
    show ?thesis by (simp only: t u append_assoc append_Cons append_Nil)
  next
    case False
    have u: "unreportedKeys j (a # b) = unreportedKeys j b"
      using False a by (auto simp: unreportedKeys_def)
    have "fst (snd (takeOutCursor j m T (a # b) (count, st, ns))) =
          fst (snd (takeOutCursor j m T b (count, st, ns)))
        \<or> (\<exists>ns'. fst (snd (takeOutCursor j m T (a # b) (count, st, ns))) =
          fst (snd (takeOutCursor j m T b (count, st, ns'))))"
      using False a lt by auto
    with Cons.IH[OF n1, of st] show ?thesis
      by (auto simp only: u)
  qed
qed

text \<open>Every key the loop adds belongs to its stat type and parses as JSON.\<close>

lemma takeOutCursor_keys:
  "k \<in> set (statsOf (fst (snd (takeOutCursor j m T b acc))) ty) \<Longrightarrow>
   k \<in> set (statsOf (fst (snd acc)) ty) \<or> (ty = T \<and> j k)"
proof (induction j m T b acc rule: takeOutCursor.induct)
  case (1 jsonValid maxCount statType acc)
  then show ?case by simp
next
  case (2 jsonValid maxCount statType key val rest count st ns)
  then show ?case
    by (auto simp: statsOf_def split: if_splits option.splits)
qed

lemma bucketPut_mem: "(k, v) \<in> set (bucketPut k v b)"
  by (induction b) auto

lemma bucketPut_keeps: "(k', v) \<in> set b \<Longrightarrow> (k', v) \<in> set (bucketPut k v b)"
  by (induction b) auto

lemma putKeys_mem:
  "putKeys flt T v ks b = Inr b' \<Longrightarrow>
   (\<forall>k \<in> set ks. (k, v) \<in> set b') \<and> (\<forall>k. (k, v) \<in> set b \<longrightarrow> (k, v) \<in> set b')"
proof (induction ks arbitrary: b)
  case Nil
  then show ?case by simp
next
  case (Cons k ks)
  from Cons.prems have nf: "\<not> flt T k" and r: "putKeys flt T v ks (bucketPut k v b) = Inr b'"
    by (auto split: if_splits)
  from Cons.IH[OF r] show ?case
    by (auto simp: bucketPut_mem bucketPut_keeps)
qed

lemma unreportedKeys_mem:
  "(k, persistentStatStateUnreported) \<in> set b \<Longrightarrow> j k \<Longrightarrow> k \<in> set (unreportedKeys j b)"
  by (force simp: unreportedKeys_def)

lemma TakeOut_success:
  assumes "TakeOutUnreportedPersistentStats j flt m w = (Inr T, w')"
  shows "\<exists>d. store w = Opened d \<and>
           T = fst (snd (takeOutCursor j m PERSISTENT_STAT_TYPE_REMOTE_SERVER_LIST
                   (persistentStats d PERSISTENT_STAT_TYPE_REMOTE_SERVER_LIST)
                   (0, Map.empty, [])))"
  using assms
  by (auto simp: TakeOutUnreportedPersistentStats_def dataStoreUpdate_def persistentStatTypes_def
           split: store_state.splits prod.splits sum.splits)

lemma PutBack_success:
  assumes "PutBackUnreportedPersistentStats flt T w = (None, w')"
  shows "\<exists>d b'. store w = Opened d \<and>
           putKeys flt PERSISTENT_STAT_TYPE_REMOTE_SERVER_LIST persistentStatStateUnreported
             (statsOf T PERSISTENT_STAT_TYPE_REMOTE_SERVER_LIST)
             (persistentStats d PERSISTENT_STAT_TYPE_REMOTE_SERVER_LIST) = Inr b' \<and>
           store w' = Opened (setStatBucket d PERSISTENT_STAT_TYPE_REMOTE_SERVER_LIST b')"
  using assms
  by (auto simp: PutBackUnreportedPersistentStats_def dataStoreUpdate_def persistentStatTypes_def
                 errorOf_def txOf_def
           split: store_state.splits prod.splits sum.splits)

text \<open>
  C8.  Let T be a set of stat records returned by an earlier
  TakeOutUnreportedPersistentStats.  If PutBackUnreportedPersistentStats(T) succeeds and
  is followed by a successful TakeOutUnreportedPersistentStats whose maxCount is at least
  the number of stored records, the take-out returns, for every stat type, a superset of
  the keys of T.  The world in which T is put back is arbitrary, so whatever happened
  between the first take-out and the put-back does not matter.
\<close>

theorem putback_then_takeout_superset:
  assumes first: "TakeOutUnreportedPersistentStats jsonValid flt0 n w0 = (Inr T, w1)"
    and putback: "PutBackUnreportedPersistentStats flt1 T w = (None, w')"
    and again: "TakeOutUnreportedPersistentStats jsonValid flt2 m w' = (Inr T', w2)"
    and room: "storedStatCount w' \<le> m"
  shows "set (statsOf T statType) \<subseteq> set (statsOf T' statType)"
proof
  fix k
  let ?ty = PERSISTENT_STAT_TYPE_REMOTE_SERVER_LIST
  assume k: "k \<in> set (statsOf T statType)"
  from TakeOut_success[OF first] obtain d0 :: datastore where
    T: "T = fst (snd (takeOutCursor jsonValid n ?ty (persistentStats d0 ?ty) (0, Map.empty, [])))"
    by auto
  from k takeOutCursor_keys[of k jsonValid n ?ty "persistentStats d0 ?ty" "(0, Map.empty, [])"
                               statType]
  have ty: "statType = ?ty" and jk: "jsonValid k"
    unfolding T by (simp_all add: statsOf_def)
  from PutBack_success[OF putback] obtain d b' where
    put: "putKeys flt1 ?ty persistentStatStateUnreported (statsOf T ?ty)
            (persistentStats d ?ty) = Inr b'"
    and w': "store w' = Opened (setStatBucket d ?ty b')" by auto
  from putKeys_mem[OF put] k ty have mem: "(k, persistentStatStateUnreported) \<in> set b'"
    by simp
  from TakeOut_success[OF again] w'
  have T': "T' = fst (snd (takeOutCursor jsonValid m ?ty b' (0, Map.empty, [])))"
    by (simp add: setStatBucket_def)
  from room w' have "0 + int (length b') \<le> m"
    by (simp add: storedStatCount_def persistentStatTypes_def setStatBucket_def)
  from takeOutCursor_full[OF this, of jsonValid ?ty Map.empty "[]"]
  have "statsOf T' ?ty = unreportedKeys jsonValid b'"
    unfolding T' by (simp add: statsOf_def)
  with unreportedKeys_mem[of k b' jsonValid, OF mem jk] ty show "k \<in> set (statsOf T' statType)"
    by simp
qed

subsection \<open>The scenarios, evaluated\<close>

lemma twoStats_eq:
  "twoStats = worldOf (statsDb [(stat1, persistentStatStateUnreported),
                                (stat2, persistentStatStateUnreported)])"
  by (simp add: twoStats_def stat_defs const_defs)

lemma takeOut_twoStats:
  "TakeOutUnreportedPersistentStats opensJSON noFaults 10 twoStats =
     (Inr bothTaken, worldOf (statsDb [(stat1, persistentStatStateReporting),
                                       (stat2, persistentStatStateReporting)]))"
  by (simp add: twoStats_eq bothTaken_def stat_defs const_defs)

lemma takeOne_twoStats:
  "TakeOutUnreportedPersistentStats opensJSON noFaults 1 twoStats =
     (Inr oneTaken, worldOf (statsDb [(stat1, persistentStatStateReporting),
                                      (stat2, persistentStatStateUnreported)]))"
  by (simp add: twoStats_eq oneTaken_def stat_defs const_defs)

lemma takenOut_eq:
  "takenOut = worldOf (statsDb [(stat1, persistentStatStateReporting),
                                (stat2, persistentStatStateReporting)])"
  by (simp add: takenOut_def takeOut_twoStats)

lemma reopened_eq: "reopened = twoStats"
  by (simp add: reopened_def takenOut_eq twoStats_eq stat_defs const_defs)

text \<open>
  One of two stats is taken out and put back; taking out with room for both returns both.
\<close>

theorem putback_then_takeout_superset_witness:
  "set (statsOf oneTaken PERSISTENT_STAT_TYPE_REMOTE_SERVER_LIST)
     \<subseteq> set (statsTaken (fst (TakeOutUnreportedPersistentStats opensJSON noFaults 2
                (snd (PutBackUnreportedPersistentStats noFaults oneTaken
                   (snd (TakeOutUnreportedPersistentStats opensJSON noFaults 1 twoStats))))))
              PERSISTENT_STAT_TYPE_REMOTE_SERVER_LIST)
   \<and> statsOf oneTaken PERSISTENT_STAT_TYPE_REMOTE_SERVER_LIST = [stat1]
   \<and> statsTaken (fst (TakeOutUnreportedPersistentStats opensJSON noFaults 2
                (snd (PutBackUnreportedPersistentStats noFaults oneTaken
                   (snd (TakeOutUnreportedPersistentStats opensJSON noFaults 1 twoStats))))))
              PERSISTENT_STAT_TYPE_REMOTE_SERVER_LIST = [stat1, stat2]"
proof -
  let ?ty = PERSISTENT_STAT_TYPE_REMOTE_SERVER_LIST
  let ?w1 = "snd (TakeOutUnreportedPersistentStats opensJSON noFaults 1 twoStats)"
  let ?pb = "PutBackUnreportedPersistentStats noFaults oneTaken ?w1"
  let ?t2 = "TakeOutUnreportedPersistentStats opensJSON noFaults 2 (snd ?pb)"
  have pb: "?pb = (None, twoStats)"
    by (simp add: takeOne_twoStats twoStats_eq oneTaken_def stat_defs const_defs)
  have t2: "?t2 = (Inr bothTaken, takenOut)"
    unfolding pb snd_conv
    by (simp add: takenOut_eq twoStats_eq bothTaken_def stat_defs const_defs)
  have n: "storedStatCount (snd ?pb) \<le> 2"
    unfolding pb snd_conv
    by (simp add: twoStats_eq storedStatCount_def worldOf_def statsDb_def
                  persistentStatTypes_def)
  have pb': "?pb = (None, snd ?pb)" by (simp add: pb)
  have r: "statsTaken (fst ?t2) ?ty = statsOf bothTaken ?ty"
    by (simp add: t2 statsTaken_def)
  have v: "statsOf bothTaken ?ty = [stat1, stat2]" "statsOf oneTaken ?ty = [stat1]"
    by (simp_all add: bothTaken_def oneTaken_def statsOf_def)
  from putback_then_takeout_superset[OF takeOne_twoStats pb' t2 n, of ?ty] r v
  show ?thesis by (simp only: simp_thms)
qed

subsection \<open>Counting\<close>

text \<open>
  The break leaves the cursor loop at the first unreported record, so a bucket adds at
  most one to the count.
\<close>

lemma countCursor_at_most_one: "countCursor b u \<le> u + 1"
  by (induction b u rule: countCursor.induct) auto

lemma CountUnreported_at_most_one: "fst (CountUnreportedPersistentStats w) \<le> 1"
  using countCursor_at_most_one[of _ 0]
  by (auto simp: CountUnreportedPersistentStats_def dataStoreView_def persistentStatTypes_def
           split: store_state.splits sum.splits)

text \<open>
  C5 on the code.  Two stats are stored and taken out (both are returned), the process
  dies and the datastore is opened again: both records are back to Unreported, and
  CountUnreportedPersistentStats returns 1, not their number 2.
\<close>

theorem count_after_crash_is_one:
  "statsTaken (fst (TakeOutUnreportedPersistentStats opensJSON noFaults 10 twoStats))
       PERSISTENT_STAT_TYPE_REMOTE_SERVER_LIST = [stat1, stat2]
   \<and> fst (OpenDataStore quietIO noFaults (crash takenOut)) = None
   \<and> statBucketOf reopened PERSISTENT_STAT_TYPE_REMOTE_SERVER_LIST =
        [(stat1, persistentStatStateUnreported), (stat2, persistentStatStateUnreported)]
   \<and> fst (CountUnreportedPersistentStats reopened) = 1"
proof -
  have a: "statsTaken (fst (TakeOutUnreportedPersistentStats opensJSON noFaults 10 twoStats))
       PERSISTENT_STAT_TYPE_REMOTE_SERVER_LIST = [stat1, stat2]"
    by (simp add: takeOut_twoStats statsTaken_def bothTaken_def statsOf_def)
  have b: "fst (OpenDataStore quietIO noFaults (crash takenOut)) = None"
    by (simp add: takenOut_eq stat_defs const_defs)
  have c: "statBucketOf reopened PERSISTENT_STAT_TYPE_REMOTE_SERVER_LIST =
        [(stat1, persistentStatStateUnreported), (stat2, persistentStatStateUnreported)]"
    by (simp add: reopened_eq twoStats_eq statBucketOf_def worldOf_def statsDb_def)
  have d: "fst (CountUnreportedPersistentStats reopened) = 1"
    by (simp add: reopened_eq twoStats_eq stat_defs const_defs)
  from a b c d show ?thesis by simp
qed

section \<open>The server entry filter\<close>

lemma OpenDataStore_fresh: "OpenDataStore quietIO noFaults closedWorld = (None, freshWorld)"
  by (simp add: OpenDataStore_def closedWorld_def quietIO_def freshWorld_def
        resetAllPersistentStatsToUnreported_def dataStoreUpdate_def errorOf_def txOf_def
        persistentStatTypes_def emptyDatastore_def setStatBucket_def numeral_3_eq_3
        noFaults_def fun_upd_idem_iff)

text \<open>On a fresh datastore every non-empty egress region reads as a changed filter.\<close>

lemma hasChanged_fresh_nonempty:
  "EgressRegion config \<noteq> [] \<Longrightarrow> hasServerEntryFilterChanged config freshWorld = Inr True"
  by (simp add: hasServerEntryFilterChanged_def makeServerEntryFilterValue_def
        dataStoreView_def freshWorld_def emptyDatastore_def bytesCompare_def bytesOf_def)

text \<open>Once a filter value is stored, the filter has changed exactly when the region differs.\<close>

lemma hasChanged_stored:
  "store w = Opened d \<Longrightarrow> keyValues d DATA_STORE_LAST_SERVER_ENTRY_FILTER_KEY = Some v \<Longrightarrow>
   hasServerEntryFilterChanged config w = Inr (EgressRegion config \<noteq> v)"
  by (auto simp: hasServerEntryFilterChanged_def makeServerEntryFilterValue_def
        dataStoreView_def bytesCompare_def bytesOf_def)

text \<open>
  C6 on the code.  On a freshly opened datastore, where no filter value was ever stored,
  hasServerEntryFilterChanged returns false for the config whose egress region is the
  empty string: \<open>bytes.Compare\<close> takes the nil previous filter for the empty slice.
\<close>

theorem filter_unchanged_on_fresh_store:
  "hasServerEntryFilterChanged emptyRegionConfig
     (snd (OpenDataStore quietIO noFaults closedWorld)) = Inr False"
  by (simp add: OpenDataStore_fresh hasServerEntryFilterChanged_def
        makeServerEntryFilterValue_def dataStoreView_def freshWorld_def emptyDatastore_def
        bytesCompare_def bytesOf_def emptyRegionConfig_def)

section \<open>Opening the datastore\<close>

lemma reset_fst:
  "store w = Opened d \<Longrightarrow>
   fst (resetAllPersistentStatsToUnreported flt w) =
     (case resetStatTypes flt persistentStatTypes d of Inl e \<Rightarrow> Some e | Inr _ \<Rightarrow> None)"
  by (simp add: resetAllPersistentStatsToUnreported_def dataStoreUpdate_def errorOf_def txOf_def
           split: sum.splits)

lemma reset_failure_store:
  "fst (resetAllPersistentStatsToUnreported flt w) = Some e \<Longrightarrow>
   store (snd (resetAllPersistentStatsToUnreported flt w)) = store w"
  by (auto simp: resetAllPersistentStatsToUnreported_def dataStoreUpdate_def errorOf_def txOf_def
           split: sum.splits store_state.splits)

text \<open>
  C7, as the code has it.  When the store is closed, an attempt to attach the file
  succeeds and the buckets are created, OpenDataStore succeeds even if the reset of the
  persistent stats to Unreported fails on the attached database: the reset error is
  discarded, the datastore is open, and it holds what the file held.
\<close>

theorem open_discards_reset_error:
  assumes "store w = Closed file"
    and "openAttempts (boltOpenFails io) 3 0 file [] = (ns, file', Some newDB)"
    and "\<not> createBucketsFails io"
    and "fst (resetAllPersistentStatsToUnreported flt (worldOf newDB)) = Some e"
  shows "fst (OpenDataStore io flt w) = None \<and>
         store (snd (OpenDataStore io flt w)) = Opened newDB"
proof -
  let ?ns2 = "if deleteBucketFails io
              then ns @ [NoticeAlert ''DeleteBucket tunnelStats error''] else ns"
  let ?w1 = "w\<lparr>store := Opened newDB, notices := notices w @ ?ns2\<rparr>"
  have o: "OpenDataStore io flt w = (None, snd (resetAllPersistentStatsToUnreported flt ?w1))"
    using assms(1,2,3) by (simp add: OpenDataStore_def Let_def split: prod.splits)
  have "fst (resetAllPersistentStatsToUnreported flt ?w1) = Some e"
    using assms(4) by (simp add: reset_fst[of _ newDB] worldOf_def)
  from reset_failure_store[OF this] o show ?thesis by simp
qed

text \<open>
  A file holds one stat in state Reporting and the write of its key fails: the store opens
  all the same.
\<close>

theorem open_discards_reset_error_witness:
  "fst (OpenDataStore quietIO statFault crashedFileWorld) = None \<and>
   store (snd (OpenDataStore quietIO statFault crashedFileWorld)) = Opened reportingDb"
proof -
  have a: "store crashedFileWorld = Closed (DbFile reportingDb)"
    by (simp add: crashedFileWorld_def)
  have b: "openAttempts (boltOpenFails quietIO) 3 0 (DbFile reportingDb) [] =
             ([], DbFile reportingDb, Some reportingDb)"
    by (simp add: quietIO_def numeral_3_eq_3)
  have c: "\<not> createBucketsFails quietIO"
    by (simp add: quietIO_def)
  have d: "fst (resetAllPersistentStatsToUnreported statFault (worldOf reportingDb)) =
             Some PutError"
    by (simp add: resetAllPersistentStatsToUnreported_def dataStoreUpdate_def errorOf_def
          txOf_def worldOf_def reportingDb_def statsDb_def statFault_def faultAt_def
          persistentStatTypes_def emptyDatastore_def)
  from open_discards_reset_error[OF a b c d] show ?thesis .
qed

text \<open>
  C7 as stated fails: the reset fails, OpenDataStore returns no error, and the stat is
  still in state Reporting in the open datastore.
\<close>

theorem open_succeeds_though_reset_fails:
  "fst (resetAllPersistentStatsToUnreported statFault (worldOf reportingDb)) = Some PutError
   \<and> fst (OpenDataStore quietIO statFault crashedFileWorld) = None
   \<and> statBucketOf (snd (OpenDataStore quietIO statFault crashedFileWorld))
        PERSISTENT_STAT_TYPE_REMOTE_SERVER_LIST = [(stat1, persistentStatStateReporting)]"
  by (simp add: OpenDataStore_def quietIO_def reportingDb_def statsDb_def statFault_def
        faultAt_def worldOf_def crashedFileWorld_def resetAllPersistentStatsToUnreported_def
        dataStoreUpdate_def errorOf_def txOf_def persistentStatTypes_def emptyDatastore_def
        setStatBucket_def numeral_3_eq_3 statBucketOf_def stat1_def)

section \<open>Split tunnel routes\<close>

text \<open>The result of SetSplitTunnelRoutes is the result of its second write alone.\<close>

lemma SetSplitTunnelRoutes_result:
  "store w = Opened d \<Longrightarrow>
   fst (SetSplitTunnelRoutes flt region etag data w) =
     (if flt splitTunnelRouteDataBucket region then Some PutError else None)"
  by (simp add: SetSplitTunnelRoutes_def setSplitTunnelRoutesTx_def dataStoreUpdate_def
        errorOf_def split: prod.splits)

text \<open>
  C9 on the code.  The write of the ETag fails, the write of the data succeeds:
  SetSplitTunnelRoutes returns no error and commits the data without the ETag.
\<close>

theorem split_tunnel_first_error_lost:
  "fst (SetSplitTunnelRoutes (faultAt splitTunnelRouteETagsBucket ''US'')
          ''US'' ''etag'' ''data'' freshWorld) = None
   \<and> GetSplitTunnelRoutesETag ''US''
        (snd (SetSplitTunnelRoutes (faultAt splitTunnelRouteETagsBucket ''US'')
                ''US'' ''etag'' ''data'' freshWorld)) = Inr []
   \<and> GetSplitTunnelRoutesData ''US''
        (snd (SetSplitTunnelRoutes (faultAt splitTunnelRouteETagsBucket ''US'')
                ''US'' ''etag'' ''data'' freshWorld)) = Inr (Some ''data'')"
  by (simp add: SetSplitTunnelRoutes_def setSplitTunnelRoutesTx_def dataStoreUpdate_def
        errorOf_def faultAt_def freshWorld_def emptyDatastore_def GetSplitTunnelRoutesETag_def
        GetSplitTunnelRoutesData_def dataStoreView_def bytesOf_def
        splitTunnelRouteETagsBucket_def splitTunnelRouteDataBucket_def)

end
